theory Spec2Isabelle
  imports Main "HOL-Library.Word" "HOL-Library.Multiset"
begin

section \<open>Data model\<close>

text \<open>
  The image hoster of \<^verbatim>\<open>src/app.py\<close> (and its copy \<^verbatim>\<open>src/api/index.py\<close>, whose
  view functions are the same line for line) keeps two tables, a directory of uploaded
  files and the identity stored in the client's session.  Each view function is embedded
  as a function from the request's inputs and the state before the request to the
  response, the messages handed to \<^verbatim>\<open>flash\<close> during the request, and the state after it.
\<close>

type_synonym bytes = "8 word list"

text \<open>\<^verbatim>\<open>class User(db.Model, UserMixin)\<close>: the three columns.\<close>

record user =
  u_id :: nat
  username :: string
  password_hash :: string

text \<open>
  \<^verbatim>\<open>class ImageModel(db.Model)\<close>.  \<^verbatim>\<open>thumbnail\<close> and \<^verbatim>\<open>custom_slug\<close> are the
  two columns declared \<^verbatim>\<open>nullable=True\<close>; \<open>None\<close> is SQL NULL.  \<^verbatim>\<open>upload_date\<close> is
  a point in time, counted in clock ticks.
\<close>

record image =
  i_id :: nat
  filename :: string
  thumbnail :: "string option"
  custom_slug :: "string option"
  upload_date :: nat
  user_id :: nat

text \<open>
  The exceptions that can leave a view function: \<open>IntegrityError\<close> is what
  \<^verbatim>\<open>db.session.commit()\<close> raises when a row breaks a column constraint;
  \<open>AttributeError\<close> is what the password hasher raises on a password that is
  \<^verbatim>\<open>None\<close> (a form without the field).  No view function has a \<^verbatim>\<open>try\<close> block, so either
  one reaches the framework.
\<close>

datatype error = IntegrityError | AttributeError

datatype http_method = GET | POST

datatype endpoint = EIndex | ERegister | ELogin | EUpload | EImageDetail nat

datatype response =
    RenderTemplate string
  | RenderIndex "image list"
  | RenderDetail image
  | Redirect endpoint
  | SendFile bytes
  | Abort404
  | Raise error

text \<open>
  \<open>files\<close> is the directory \<^verbatim>\<open>app.config['UPLOAD_FOLDER']\<close>, addressed by file name.
  \<open>session\<close> is the user id that \<^verbatim>\<open>login_user\<close> stores in the client's session, for
  one client.
\<close>

record state =
  users :: "user list"
  images :: "image list"
  files :: "string \<rightharpoonup> bytes"
  session :: "nat option"

text \<open>
  What the three Pillow calls of \<^verbatim>\<open>create_thumbnail\<close> can do to the target path.
  \<open>Written t\<close>: all three return and the target holds \<open>t\<close>.  \<open>RaisedEarly\<close>: one of
  them raises before \<^verbatim>\<open>img.save\<close> has opened the target (\<^verbatim>\<open>Image.open\<close> cannot decode
  the file, \<^verbatim>\<open>img.thumbnail\<close> fails, or \<^verbatim>\<open>img.save\<close> refuses the format).
  \<open>RaisedInSave partial cleanup\<close>: \<^verbatim>\<open>img.save\<close> has opened the target for writing, which
  empties a file that was there, and raises after writing \<open>partial\<close>, possibly nothing;
  with \<open>cleanup\<close> the library then removes a target that it has created itself.
\<close>

datatype thumb_outcome = Written bytes | RaisedEarly | RaisedInSave bytes bool

text \<open>
  The library functions the application calls and whose code is not part of the
  repository are parameters of the model, so that every theorem holds for whatever they
  compute: \<^verbatim>\<open>werkzeug.utils.secure_filename\<close>, \<^verbatim>\<open>generate_password_hash\<close> (with the
  salt it draws for this request), \<^verbatim>\<open>check_password_hash\<close> (stored hash first), and
  the three Pillow calls of \<^verbatim>\<open>create_thumbnail\<close>: \<open>pil_thumbnail path data\<close> is their
  outcome for the target \<open>path\<close> and an image file holding \<open>data\<close>.
\<close>

record lib =
  secure_filename :: "string \<Rightarrow> string"
  generate_password_hash :: "string \<Rightarrow> string"
  check_password_hash :: "string \<Rightarrow> string \<Rightarrow> bool"
  pil_thumbnail :: "string \<Rightarrow> bytes \<Rightarrow> thumb_outcome"

text \<open>
  \<^verbatim>\<open>request.form.get(...)\<close> yields \<^verbatim>\<open>None\<close> for a field that is not in the form and
  the empty string for a field left blank.  \<open>image_part\<close> is \<^verbatim>\<open>request.files['image']\<close>
  when the part is there: the client's file name and the content.
\<close>

record cred_form =
  form_username :: "string option"
  form_password :: "string option"

record upload_form =
  image_part :: "(string \<times> bytes) option"
  form_custom_slug :: "string option"

type_synonym outcome = "response \<times> string list \<times> state"

section \<open>Storage layer\<close>

text \<open>
  The primary key of a new row: one more than the largest key in the table.
\<close>

definition next_id :: "nat list \<Rightarrow> nat" where
  "next_id ids = Suc (fold max ids 0)"

text \<open>
  \<^verbatim>\<open>db.session.add(new_user); db.session.commit()\<close> under the constraints of the
  \<^verbatim>\<open>username\<close> column, \<^verbatim>\<open>unique=True, nullable=False\<close>.
\<close>

definition add_user :: "user list \<Rightarrow> string option \<Rightarrow> string \<Rightarrow> error + user list" where
  "add_user us name h =
     (case name of
        None \<Rightarrow> Inl IntegrityError
      | Some n \<Rightarrow>
          if n \<in> set (map username us) then Inl IntegrityError
          else Inr (us @ [\<lparr>u_id = next_id (map u_id us), username = n, password_hash = h\<rparr>]))"

text \<open>
  \<^verbatim>\<open>db.session.add(new_image); db.session.commit()\<close> under the constraint of the
  \<^verbatim>\<open>custom_slug\<close> column, \<^verbatim>\<open>unique=True, nullable=True\<close>: any number of rows may hold
  NULL, no two rows the same string, the empty string included.  The row is given as a
  function of its primary key.
\<close>

definition add_image :: "image list \<Rightarrow> (nat \<Rightarrow> image) \<Rightarrow> error + image \<times> image list" where
  "add_image imgs row =
     (let new = row (next_id (map i_id imgs)) in
      if custom_slug new \<noteq> None \<and> custom_slug new \<in> set (map custom_slug imgs)
      then Inl IntegrityError
      else Inr (new, imgs @ [new]))"

text \<open>\<^verbatim>\<open>User.query.filter_by(username=username).first()\<close>; no row has a NULL name.\<close>

definition user_by_username :: "user list \<Rightarrow> string option \<Rightarrow> user option" where
  "user_by_username us name = find (\<lambda>u. Some (username u) = name) us"

text \<open>\<^verbatim>\<open>ImageModel.query.filter_by(custom_slug=custom_slug).first()\<close> for a string.\<close>

definition image_by_custom_slug :: "image list \<Rightarrow> string \<Rightarrow> image option" where
  "image_by_custom_slug imgs slug = find (\<lambda>i. custom_slug i = Some slug) imgs"

text \<open>
  \<^verbatim>\<open>ImageModel.query.order_by(ImageModel.upload_date.desc()).all()\<close>.  SQL leaves the
  order of rows with equal dates open; here they keep the order of the table: a row is
  put in front of the first later row of the table whose date is not after its own.
\<close>

fun insert_desc :: "image \<Rightarrow> image list \<Rightarrow> image list" where
  "insert_desc x [] = [x]"
| "insert_desc x (y # ys) =
     (if upload_date y \<le> upload_date x then x # y # ys else y # insert_desc x ys)"

definition order_by_upload_date_desc :: "image list \<Rightarrow> image list" where
  "order_by_upload_date_desc imgs = foldr insert_desc imgs []"

text \<open>
  What the columns declare of every table: keys and user names are unique, and so are
  the custom slugs that are not NULL.
\<close>

definition db_ok :: "state \<Rightarrow> bool" where
  "db_ok s =
     (distinct (map u_id (users s)) \<and> distinct (map username (users s)) \<and>
      distinct (map i_id (images s)) \<and>
      distinct (filter (\<lambda>c. c \<noteq> None) (map custom_slug (images s))))"

section \<open>Helpers of the application\<close>

definition ALLOWED_EXTENSIONS :: "string set" where
  "ALLOWED_EXTENSIONS = {''png'', ''jpg'', ''jpeg'', ''gif''}"

text \<open>
  \<^verbatim>\<open>str.lower\<close> on the letters A to Z; no other character has a lower-case form that is
  a letter of an allowed extension.
\<close>

definition lower_char :: "char \<Rightarrow> char" where
  "lower_char c =
     (case map_of (zip ''ABCDEFGHIJKLMNOPQRSTUVWXYZ'' ''abcdefghijklmnopqrstuvwxyz'') c of
        None \<Rightarrow> c
      | Some l \<Rightarrow> l)"

definition lower :: "string \<Rightarrow> string" where
  "lower = map lower_char"

text \<open>\<^verbatim>\<open>filename.rsplit('.', 1)[1]\<close> for a name with a dot: what follows the last dot.\<close>

definition rsplit_dot_1 :: "string \<Rightarrow> string" where
  "rsplit_dot_1 name = rev (takeWhile (\<lambda>c. c \<noteq> CHR ''.'') (rev name))"

definition allowed_file :: "string \<Rightarrow> bool" where
  "allowed_file name =
     (CHR ''.'' \<in> set name \<and> lower (rsplit_dot_1 name) \<in> ALLOWED_EXTENSIONS)"

text \<open>
  \<^verbatim>\<open>create_thumbnail(image_path, thumbnail_path)\<close>: the three Pillow calls inside
  \<^verbatim>\<open>try\<close>, and an \<^verbatim>\<open>except Exception\<close> that prints and returns.  Nothing is returned in
  either case, so the only effect is on the directory, and there only on the target.
  \<^verbatim>\<open>Image.open\<close> on a path that holds no file raises before anything is written.
\<close>

definition create_thumbnail ::
  "lib \<Rightarrow> (string \<rightharpoonup> bytes) \<Rightarrow> string \<Rightarrow> string \<Rightarrow> (string \<rightharpoonup> bytes)" where
  "create_thumbnail L fs image_path thumbnail_path =
     (case fs image_path of
        None \<Rightarrow> fs
      | Some d \<Rightarrow>
          (case pil_thumbnail L thumbnail_path d of
             Written t \<Rightarrow> fs(thumbnail_path \<mapsto> t)
           | RaisedEarly \<Rightarrow> fs
           | RaisedInSave partial cleanup \<Rightarrow>
               if cleanup \<and> fs thumbnail_path = None then fs
               else fs(thumbnail_path \<mapsto> partial)))"

text \<open>
  \<^verbatim>\<open>current_user\<close>: the user that \<^verbatim>\<open>load_user\<close> finds for the id in the session.
  \<^verbatim>\<open>@login_required\<close> sends a request without one to \<^verbatim>\<open>login_manager.login_view\<close>,
  with the message of the login manager.
\<close>

definition current_user :: "state \<Rightarrow> user option" where
  "current_user s =
     (case session s of None \<Rightarrow> None | Some uid \<Rightarrow> find (\<lambda>u. u_id u = uid) (users s))"

definition unauthorized :: "state \<Rightarrow> outcome" where
  "unauthorized s = (Redirect ELogin, [''Please log in to access this page.''], s)"

section \<open>View functions\<close>

definition index :: "state \<Rightarrow> outcome" where
  "index s = (RenderIndex (order_by_upload_date_desc (images s)), [], s)"

definition register :: "lib \<Rightarrow> http_method \<Rightarrow> cred_form \<Rightarrow> state \<Rightarrow> outcome" where
  "register L m form s =
     (if m = POST then
        if user_by_username (users s) (form_username form) \<noteq> None
        then (Redirect ERegister, [''Username already exists!''], s)
        else
          (case form_password form of
             None \<Rightarrow> (Raise AttributeError, [], s)
           | Some password \<Rightarrow>
               (case add_user (users s) (form_username form)
                       (generate_password_hash L password) of
                  Inl e \<Rightarrow> (Raise e, [], s)
                | Inr us \<Rightarrow>
                    (Redirect ELogin, [''Registration successful! Please login.''],
                     s\<lparr>users := us\<rparr>)))
      else (RenderTemplate ''register.html'', [], s))"

definition login :: "lib \<Rightarrow> http_method \<Rightarrow> cred_form \<Rightarrow> state \<Rightarrow> outcome" where
  "login L m form s =
     (if m = POST then
        (case user_by_username (users s) (form_username form) of
           None \<Rightarrow> (Redirect ELogin, [''Invalid username or password''], s)
         | Some u \<Rightarrow>
             (case form_password form of
                None \<Rightarrow> (Raise AttributeError, [], s)
              | Some password \<Rightarrow>
                  if check_password_hash L (password_hash u) password
                  then (Redirect EIndex, [], s\<lparr>session := Some (u_id u)\<rparr>)
                  else (Redirect ELogin, [''Invalid username or password''], s)))
      else (RenderTemplate ''login.html'', [], s))"

definition logout :: "state \<Rightarrow> outcome" where
  "logout s =
     (case current_user s of
        None \<Rightarrow> unauthorized s
      | Some _ \<Rightarrow> (Redirect EIndex, [], s\<lparr>session := None\<rparr>))"

text \<open>
  The file effects of an accepted file, lines 117 to 124 of \<^verbatim>\<open>upload\<close>:
  \<^verbatim>\<open>file.save(file_path)\<close> replaces whatever the directory holds under the sanitized
  name, then \<^verbatim>\<open>create_thumbnail\<close> reads that file and writes beside it under the
  prefix \<^verbatim>\<open>thumb_\<close>.
\<close>

definition save_upload :: "lib \<Rightarrow> (string \<rightharpoonup> bytes) \<Rightarrow> string \<Rightarrow> bytes \<Rightarrow> (string \<rightharpoonup> bytes)" where
  "save_upload L fs stored data =
     create_thumbnail L (fs(stored \<mapsto> data)) stored (''thumb_'' @ stored)"

text \<open>
  The row built at \<^verbatim>\<open>new_image = ImageModel(...)\<close>: the thumbnail name is passed
  whatever \<^verbatim>\<open>create_thumbnail\<close> did, and the custom slug is the value read from the
  form.  \<open>now\<close> is what \<^verbatim>\<open>datetime.utcnow\<close> returns when the row is inserted.
\<close>

definition new_image :: "string \<Rightarrow> string option \<Rightarrow> nat \<Rightarrow> user \<Rightarrow> nat \<Rightarrow> image" where
  "new_image name slug now cu k =
     \<lparr>i_id = k, filename = name, thumbnail = Some (''thumb_'' @ name),
      custom_slug = slug, upload_date = now, user_id = u_id cu\<rparr>"

text \<open>
  \<^verbatim>\<open>if custom_slug:\<close> with the query under it: false for \<^verbatim>\<open>None\<close> and for the
  empty string, which are never looked up.
\<close>

definition slug_in_use :: "image list \<Rightarrow> string option \<Rightarrow> bool" where
  "slug_in_use imgs slug =
     (case slug of
        None \<Rightarrow> False
      | Some c \<Rightarrow> c \<noteq> [] \<and> image_by_custom_slug imgs c \<noteq> None)"

text \<open>
  \<^verbatim>\<open>upload\<close>.  \<^verbatim>\<open>redirect(request.url)\<close> leads back to the upload page.  The file
  is saved and the thumbnail attempted before the custom slug is looked at.  A file that
  \<^verbatim>\<open>allowed_file\<close> refuses falls through to the last line of the function, which
  renders the form.
\<close>

definition upload :: "lib \<Rightarrow> nat \<Rightarrow> http_method \<Rightarrow> upload_form \<Rightarrow> state \<Rightarrow> outcome" where
  "upload L now m form s =
     (case current_user s of
        None \<Rightarrow> unauthorized s
      | Some cu \<Rightarrow>
          if m = POST then
            (case image_part form of
               None \<Rightarrow> (Redirect EUpload, [''No file part''], s)
             | Some (name, data) \<Rightarrow>
                 if name = [] then (Redirect EUpload, [''No selected file''], s)
                 else if name \<noteq> [] \<and> allowed_file name then
                   (let stored = secure_filename L name;
                        s1 = s\<lparr>files := save_upload L (files s) stored data\<rparr>;
                        slug = form_custom_slug form
                    in if slug_in_use (images s1) slug
                       then (Redirect EUpload,
                             [''Custom link already in use. Please choose another.''], s1)
                       else
                         (case add_image (images s1) (new_image stored slug now cu) of
                            Inl e \<Rightarrow> (Raise e, [], s1)
                          | Inr (row, imgs) \<Rightarrow>
                              (Redirect (EImageDetail (i_id row)),
                               [''Image uploaded successfully!''],
                               s1\<lparr>images := imgs\<rparr>)))
                 else (RenderTemplate ''upload.html'', [], s))
          else (RenderTemplate ''upload.html'', [], s))"

text \<open>
  \<^verbatim>\<open>send_from_directory(app.config['UPLOAD_FOLDER'], name)\<close>: the file's content, or
  the 404 response when the directory has no such file.  The three view functions below
  take their argument as the router hands it over, after it has matched the URL.
\<close>

definition send_from_directory :: "(string \<rightharpoonup> bytes) \<Rightarrow> string \<Rightarrow> response" where
  "send_from_directory fs name = (case fs name of None \<Rightarrow> Abort404 | Some d \<Rightarrow> SendFile d)"

definition image_by_slug :: "string \<Rightarrow> state \<Rightarrow> outcome" where
  "image_by_slug slug s =
     (case image_by_custom_slug (images s) slug of
        None \<Rightarrow> (Abort404, [], s)
      | Some img \<Rightarrow> (send_from_directory (files s) (filename img), [], s))"

definition uploaded_file :: "string \<Rightarrow> state \<Rightarrow> outcome" where
  "uploaded_file name s = (send_from_directory (files s) name, [], s)"

definition image_detail :: "nat \<Rightarrow> state \<Rightarrow> outcome" where
  "image_detail image_id s =
     (case find (\<lambda>i. i_id i = image_id) (images s) of
        None \<Rightarrow> (Abort404, [], s)
      | Some img \<Rightarrow> (RenderDetail img, [], s))"

section \<open>Requests in sequence\<close>

text \<open>
  A variable part \<^verbatim>\<open><custom_slug>\<close> or \<^verbatim>\<open><filename>\<close> of a rule declared by
  \<^verbatim>\<open>@app.route\<close> has the router's default converter: it matches one path segment, a
  text that is not empty and has no slash.  A path that matches no rule is answered
  with 404.
\<close>

definition url_segment :: "string \<Rightarrow> bool" where
  "url_segment v = (v \<noteq> [] \<and> CHR ''/'' \<notin> set v)"

text \<open>
  The routes declared by \<^verbatim>\<open>@app.route\<close>, one constructor each, with what the view
  function reads from the request and from its environment.  \<open>ReqImageBySlug rest\<close> is
  \<^verbatim>\<open>GET /i/\<close> followed by \<open>rest\<close>, and \<open>ReqUploadedFile rest\<close> is \<^verbatim>\<open>GET /uploads/\<close>
  followed by \<open>rest\<close>; the view function is reached when \<open>rest\<close> is one path segment.
  \<open>run\<close> serves a list of requests one after the other.
\<close>

datatype request =
    ReqIndex
  | ReqRegister lib http_method cred_form
  | ReqLogin lib http_method cred_form
  | ReqLogout
  | ReqUpload lib nat http_method upload_form
  | ReqImageBySlug string
  | ReqUploadedFile string
  | ReqImageDetail nat

fun handle :: "request \<Rightarrow> state \<Rightarrow> outcome" where
  "handle ReqIndex s = index s"
| "handle (ReqRegister L m form) s = register L m form s"
| "handle (ReqLogin L m form) s = login L m form s"
| "handle ReqLogout s = logout s"
| "handle (ReqUpload L now m form) s = upload L now m form s"
| "handle (ReqImageBySlug rest) s =
     (if url_segment rest then image_by_slug rest s else (Abort404, [], s))"
| "handle (ReqUploadedFile rest) s =
     (if url_segment rest then uploaded_file rest s else (Abort404, [], s))"
| "handle (ReqImageDetail k) s = image_detail k s"

definition state_after :: "outcome \<Rightarrow> state" where
  "state_after out = snd (snd out)"

fun run :: "request list \<Rightarrow> state \<Rightarrow> state" where
  "run [] s = s"
| "run (r # rs) s = run rs (state_after (handle r s))"

text \<open>
  The file names an upload request stores under, if it gets as far as storing: the
  sanitized name and the thumbnail name.
\<close>

fun stores_under :: "request \<Rightarrow> string \<Rightarrow> bool" where
  "stores_under (ReqUpload L now m form) name =
     (case image_part form of
        None \<Rightarrow> False
      | Some (n, d) \<Rightarrow> secure_filename L n = name \<or> ''thumb_'' @ secure_filename L n = name)"
| "stores_under _ name = False"

section \<open>Orders of a listing\<close>

definition newest_first :: "image list \<Rightarrow> bool" where
  "newest_first xs = sorted_wrt (\<lambda>a b. upload_date b \<le> upload_date a) xs"

definition strictly_newest_first :: "image list \<Rightarrow> bool" where
  "strictly_newest_first xs = sorted_wrt (\<lambda>a b. upload_date b < upload_date a) xs"

section \<open>A concrete run\<close>

text \<open>
  A library environment in which sanitizing leaves a plain name as it is, the thumbnail
  of a file is its first byte, and an empty file cannot be decoded; a second one in which
  every image decodes and \<^verbatim>\<open>img.save\<close> fails before it has written a byte; and the
  states of one client who registers, logs in and uploads.
\<close>

definition ex_lib :: lib where
  "ex_lib =
     \<lparr>secure_filename = (\<lambda>n. n),
      generate_password_hash = (\<lambda>p. ''sha:'' @ p),
      check_password_hash = (\<lambda>h p. h = ''sha:'' @ p),
      pil_thumbnail = (\<lambda>path d. if d = [] then RaisedEarly else Written (take 1 d))\<rparr>"

definition ex_lib_save_fails :: lib where
  "ex_lib_save_fails = ex_lib\<lparr>pil_thumbnail := (\<lambda>path d. RaisedInSave [] True)\<rparr>"

definition ex_png :: bytes where
  "ex_png = [137, 80, 78, 71]"

definition ex_gif :: bytes where
  "ex_gif = [71, 73, 70, 56]"

definition ex_corrupt :: bytes where
  "ex_corrupt = []"

definition ex_alice :: cred_form where
  "ex_alice = \<lparr>form_username = Some ''alice'', form_password = Some ''pw''\<rparr>"

definition ex_init :: state where
  "ex_init = \<lparr>users = [], images = [], files = Map.empty, session = None\<rparr>"

definition ex_registered :: state where
  "ex_registered = run [ReqRegister ex_lib POST ex_alice] ex_init"

definition ex_logged_in :: state where
  "ex_logged_in = run [ReqLogin ex_lib POST ex_alice] ex_registered"

definition ex_cat :: "string option \<Rightarrow> upload_form" where
  "ex_cat slug = \<lparr>image_part = Some (''cat.png'', ex_png), form_custom_slug = slug\<rparr>"

definition ex_dog :: "string option \<Rightarrow> upload_form" where
  "ex_dog slug = \<lparr>image_part = Some (''dog.gif'', ex_gif), form_custom_slug = slug\<rparr>"

definition ex_broken :: "string option \<Rightarrow> upload_form" where
  "ex_broken slug = \<lparr>image_part = Some (''cat.png'', ex_corrupt), form_custom_slug = slug\<rparr>"

definition ex_virus :: upload_form where
  "ex_virus = \<lparr>image_part = Some (''virus.exe'', ex_png), form_custom_slug = None\<rparr>"

definition ex_readme :: upload_form where
  "ex_readme = \<lparr>image_part = Some (''README'', ex_png), form_custom_slug = None\<rparr>"

definition ex_with_kitty :: state where
  "ex_with_kitty = run [ReqUpload ex_lib 7 POST (ex_cat (Some ''kitty''))] ex_logged_in"

definition ex_blank_slug :: state where
  "ex_blank_slug = run [ReqUpload ex_lib 7 POST (ex_cat (Some []))] ex_logged_in"

definition ex_same_tick :: state where
  "ex_same_tick = run [ReqUpload ex_lib 7 POST (ex_dog None)] ex_with_kitty"

definition ex_rejected :: state where
  "ex_rejected = run [ReqUpload ex_lib 8 POST (ex_dog (Some ''kitty''))] ex_with_kitty"

definition ex_wrong :: cred_form where
  "ex_wrong = \<lparr>form_username = Some ''alice'', form_password = Some ''guess''\<rparr>"

definition ex_cat_again :: upload_form where
  "ex_cat_again = \<lparr>image_part = Some (''cat.png'', ex_gif), form_custom_slug = None\<rparr>"

definition ex_later :: "request list" where
  "ex_later = [ReqIndex, ReqUpload ex_lib 9 POST (ex_dog None), ReqLogout]"

definition ex_kitty_row :: image where
  "ex_kitty_row =
     \<lparr>i_id = 1, filename = ''cat.png'', thumbnail = Some ''thumb_cat.png'',
      custom_slug = Some ''kitty'', upload_date = 7, user_id = 1\<rparr>"

definition ex_overwritten :: state where
  "ex_overwritten = run [ReqUpload ex_lib 9 POST ex_cat_again] ex_with_kitty"

definition ex_stale :: state where
  "ex_stale = run [ReqUpload ex_lib 9 POST (ex_broken None)] ex_with_kitty"

definition ex_slashed :: state where
  "ex_slashed = run [ReqUpload ex_lib 7 POST (ex_cat (Some ''a/b''))] ex_logged_in"

section \<open>Facts about the helpers and the upload view\<close>


lemma thumb_name_neq: "''thumb_'' @ n \<noteq> n"
proof
  assume "''thumb_'' @ n = n"
  then have "length (''thumb_'' @ n) = length n" by simp
  then show False by simp
qed

lemma create_thumbnail_other:
  "p \<noteq> tp \<Longrightarrow> create_thumbnail L fs ip tp p = fs p"
  by (simp add: create_thumbnail_def split: option.splits thumb_outcome.splits)

lemma save_upload_stored: "save_upload L fs n d n = Some d"
  using thumb_name_neq[of n]
  by (simp add: save_upload_def create_thumbnail_other[OF not_sym])

lemma save_upload_other:
  "p \<noteq> n \<Longrightarrow> p \<noteq> ''thumb_'' @ n \<Longrightarrow> save_upload L fs n d p = fs p"
  by (simp add: save_upload_def create_thumbnail_other)

lemma save_upload_eq:
  "save_upload L fs n d =
     (case pil_thumbnail L (''thumb_'' @ n) d of
        Written t \<Rightarrow> fs(n \<mapsto> d, ''thumb_'' @ n \<mapsto> t)
      | RaisedEarly \<Rightarrow> fs(n \<mapsto> d)
      | RaisedInSave partial cleanup \<Rightarrow>
          if cleanup \<and> fs (''thumb_'' @ n) = None then fs(n \<mapsto> d)
          else fs(n \<mapsto> d, ''thumb_'' @ n \<mapsto> partial))"
  using thumb_name_neq[of n]
  by (simp add: save_upload_def create_thumbnail_def split: thumb_outcome.splits)

lemma save_upload_idem:
  "save_upload L (save_upload L fs n d) n d = save_upload L fs n d"
  using thumb_name_neq[of n]
  by (auto simp: save_upload_eq fun_upd_twist split: thumb_outcome.splits)

lemma find_None_iff_map: "find (\<lambda>x. f x = v) xs = None \<longleftrightarrow> v \<notin> set (map f xs)"
  by (induction xs) auto

lemma slug_in_use_iff:
  "slug_in_use imgs slug \<longleftrightarrow> slug \<noteq> None \<and> slug \<noteq> Some [] \<and> slug \<in> set (map custom_slug imgs)"
  by (cases slug) (auto simp: slug_in_use_def image_by_custom_slug_def find_None_iff_map)

lemma ex_registered_eq:
  "ex_registered = \<lparr>users = [\<lparr>u_id = 1, username = ''alice'', password_hash = ''sha:pw''\<rparr>],
     images = [], files = Map.empty, session = None\<rparr>"
  by (simp add: ex_registered_def ex_init_def ex_alice_def ex_lib_def state_after_def register_def
      user_by_username_def add_user_def next_id_def)

lemma ex_logged_in_eq:
  "ex_logged_in = \<lparr>users = [\<lparr>u_id = 1, username = ''alice'', password_hash = ''sha:pw''\<rparr>],
     images = [], files = Map.empty, session = Some 1\<rparr>"
  by (simp add: ex_logged_in_def ex_registered_eq ex_alice_def ex_lib_def state_after_def login_def
      user_by_username_def)

lemma allowed_ex: "allowed_file ''cat.png''" "allowed_file ''dog.gif''" "allowed_file ''photo.JPG''"
  "\<not> allowed_file ''virus.exe''" "\<not> allowed_file ''README''"
  by (simp_all add: allowed_file_def rsplit_dot_1_def lower_def lower_char_def ALLOWED_EXTENSIONS_def)


lemma upload_accepted:
  assumes "current_user s = Some cu" and "name \<noteq> []" and "allowed_file name"
    and "slug = None \<or> slug \<notin> set (map custom_slug (images s))"
  shows "upload L now POST \<lparr>image_part = Some (name, data), form_custom_slug = slug\<rparr> s =
     (Redirect (EImageDetail (next_id (map i_id (images s)))),
      [''Image uploaded successfully!''],
      s\<lparr>files := save_upload L (files s) (secure_filename L name) data,
        images := images s @
          [new_image (secure_filename L name) slug now cu (next_id (map i_id (images s)))]\<rparr>)"
proof -
  have "\<not> slug_in_use (images s) slug"
    using assms(4) by (auto simp: slug_in_use_iff)
  moreover have "add_image (images s) (new_image (secure_filename L name) slug now cu) =
      Inr (new_image (secure_filename L name) slug now cu (next_id (map i_id (images s))),
           images s @ [new_image (secure_filename L name) slug now cu (next_id (map i_id (images s)))])"
    using assms(4) by (auto simp: add_image_def new_image_def Let_def)
  ultimately show ?thesis
    using assms(1-3) by (simp add: upload_def Let_def new_image_def)
qed

lemma upload_slug_taken:
  assumes "current_user s = Some cu" and "name \<noteq> []" and "allowed_file name"
    and "c \<noteq> []" and "Some c \<in> set (map custom_slug (images s))"
  shows "upload L now POST \<lparr>image_part = Some (name, data), form_custom_slug = Some c\<rparr> s =
     (Redirect EUpload, [''Custom link already in use. Please choose another.''],
      s\<lparr>files := save_upload L (files s) (secure_filename L name) data\<rparr>)"
proof -
  have "slug_in_use (images s) (Some c)"
    using assms(4,5) by (simp add: slug_in_use_iff)
  then show ?thesis
    using assms(1-3) by (simp add: upload_def Let_def)
qed

lemma upload_disallowed:
  assumes "current_user s = Some cu" and "name \<noteq> []" and "\<not> allowed_file name"
  shows "upload L now POST \<lparr>image_part = Some (name, data), form_custom_slug = slug\<rparr> s =
     (RenderTemplate ''upload.html'', [], s)"
  using assms by (simp add: upload_def)

lemma upload_get:
  assumes "current_user s = Some cu"
  shows "upload L now GET form s = (RenderTemplate ''upload.html'', [], s)"
  using assms by (simp add: upload_def)

lemma upload_no_integrity_error:
  assumes "form_custom_slug form \<noteq> Some []"
  shows "fst (upload L now m form s) \<noteq> Raise IntegrityError"
proof -
  have "add_image (images s) (new_image n (form_custom_slug form) now cu) \<noteq> Inl e"
    if "\<not> slug_in_use (images s) (form_custom_slug form)" for n cu e
    using that assms by (auto simp: slug_in_use_iff add_image_def new_image_def Let_def)
  then show ?thesis
    by (auto simp: upload_def unauthorized_def Let_def split: option.splits sum.splits prod.splits)
qed

lemma ex_current_user:
  "current_user ex_logged_in = Some \<lparr>u_id = 1, username = ''alice'', password_hash = ''sha:pw''\<rparr>"
  by (simp add: ex_logged_in_eq current_user_def)


lemma upload_blank_taken:
  assumes "current_user s = Some cu" and "name \<noteq> []" and "allowed_file name"
    and "Some [] \<in> set (map custom_slug (images s))"
  shows "upload L now POST \<lparr>image_part = Some (name, data), form_custom_slug = Some []\<rparr> s =
     (Raise IntegrityError, [],
      s\<lparr>files := save_upload L (files s) (secure_filename L name) data\<rparr>)"
proof -
  have "\<not> slug_in_use (images s) (Some [])"
    by (simp add: slug_in_use_iff)
  moreover have "add_image (images s) (new_image (secure_filename L name) (Some []) now cu) =
      Inl IntegrityError"
    using assms(4) by (simp add: add_image_def new_image_def Let_def)
  ultimately show ?thesis
    using assms(1-3) by (simp add: upload_def Let_def)
qed

lemma current_user_files: "current_user (s\<lparr>files := fs\<rparr>) = current_user s"
  by (simp add: current_user_def split: option.splits)

lemma user_by_username_None_iff:
  "user_by_username us (Some u) = None \<longleftrightarrow> u \<notin> set (map username us)"
  by (induction us) (auto simp: user_by_username_def)

lemma register_existing:
  assumes "u \<in> set (map username (users s))"
  shows "register L POST \<lparr>form_username = Some u, form_password = pw\<rparr> s =
     (Redirect ERegister, [''Username already exists!''], s)"
  using assms by (simp add: register_def user_by_username_None_iff)

lemma register_fresh:
  assumes "u \<notin> set (map username (users s))"
  shows "register L POST \<lparr>form_username = Some u, form_password = Some p\<rparr> s =
     (Redirect ELogin, [''Registration successful! Please login.''],
      s\<lparr>users := users s @ [\<lparr>u_id = next_id (map u_id (users s)), username = u,
                                password_hash = generate_password_hash L p\<rparr>]\<rparr>)"
  using assms by (simp add: register_def user_by_username_None_iff add_user_def)

lemma register_no_integrity_error:
  "fst (register L m \<lparr>form_username = Some u, form_password = pw\<rparr> s) \<noteq> Raise IntegrityError"
  by (auto simp: register_def user_by_username_None_iff add_user_def split: option.splits)

lemma ex_with_kitty_eq:
  "ex_with_kitty =
     \<lparr>users = [\<lparr>u_id = 1, username = ''alice'', password_hash = ''sha:pw''\<rparr>],
      images = [\<lparr>i_id = 1, filename = ''cat.png'', thumbnail = Some ''thumb_cat.png'',
                 custom_slug = Some ''kitty'', upload_date = 7, user_id = 1\<rparr>],
      files = [''cat.png'' \<mapsto> ex_png, ''thumb_cat.png'' \<mapsto> [137]],
      session = Some 1\<rparr>"
  using upload_accepted[OF ex_current_user, of "''cat.png''" "Some ''kitty''" ex_lib 7 ex_png]
    allowed_ex(1)
  by (simp add: ex_with_kitty_def ex_cat_def state_after_def ex_logged_in_eq next_id_def
      new_image_def save_upload_eq ex_lib_def ex_png_def)

lemma ex_blank_slug_eq:
  "ex_blank_slug =
     \<lparr>users = [\<lparr>u_id = 1, username = ''alice'', password_hash = ''sha:pw''\<rparr>],
      images = [\<lparr>i_id = 1, filename = ''cat.png'', thumbnail = Some ''thumb_cat.png'',
                 custom_slug = Some [], upload_date = 7, user_id = 1\<rparr>],
      files = [''cat.png'' \<mapsto> ex_png, ''thumb_cat.png'' \<mapsto> [137]],
      session = Some 1\<rparr>"
  using upload_accepted[OF ex_current_user, of "''cat.png''" "Some []" ex_lib 7 ex_png]
    allowed_ex(1)
  by (simp add: ex_blank_slug_def ex_cat_def state_after_def ex_logged_in_eq next_id_def
      new_image_def save_upload_eq ex_lib_def ex_png_def)

lemma ex_current_user_kitty:
  "current_user ex_with_kitty = Some \<lparr>u_id = 1, username = ''alice'', password_hash = ''sha:pw''\<rparr>"
  by (simp add: ex_with_kitty_eq current_user_def)

lemma ex_current_user_blank:
  "current_user ex_blank_slug = Some \<lparr>u_id = 1, username = ''alice'', password_hash = ''sha:pw''\<rparr>"
  by (simp add: ex_blank_slug_eq current_user_def)

lemma count_unique:
  "distinct (map f xs) \<Longrightarrow> v \<in> set (map f xs) \<Longrightarrow> length (filter (\<lambda>x. f x = v) xs) = 1"
proof (induction xs)
  case Nil
  then show ?case by simp
next
  case (Cons x xs)
  show ?case
  proof (cases "f x = v")
    case True
    then have "v \<notin> set (map f xs)" using Cons.prems(1) by auto
    then have "filter (\<lambda>x. f x = v) xs = []" by (auto simp: filter_empty_conv)
    then show ?thesis using True by simp
  next
    case False
    then show ?thesis using Cons by auto
  qed
qed

lemma count_absent:
  "v \<notin> set (map f xs) \<Longrightarrow> filter (\<lambda>x. f x = v) xs = []"
  by (auto simp: filter_empty_conv)

lemma user_by_username_unique:
  "distinct (map username us) \<Longrightarrow> u \<in> set us \<Longrightarrow> Some (username u) = name \<Longrightarrow>
   user_by_username us name = Some u"
  by (induction us) (auto simp: user_by_username_def)

lemma user_by_username_Some:
  "user_by_username us name = Some u \<Longrightarrow> u \<in> set us \<and> Some (username u) = name"
  by (induction us) (auto simp: user_by_username_def split: if_splits)

lemma user_by_username_None:
  "user_by_username us name = None \<Longrightarrow> u \<in> set us \<Longrightarrow> Some (username u) \<noteq> name"
  by (induction us) (auto simp: user_by_username_def split: if_splits)

lemma mset_insert_desc: "mset (insert_desc x xs) = add_mset x (mset xs)"
  by (induction xs) auto

lemma set_insert_desc: "set (insert_desc x xs) = insert x (set xs)"
  by (induction xs) auto

lemma newest_first_insert_desc:
  "newest_first xs \<Longrightarrow> newest_first (insert_desc x xs)"
  by (induction xs) (auto simp: newest_first_def set_insert_desc)

lemma mset_order_by: "mset (order_by_upload_date_desc imgs) = mset imgs"
  by (induction imgs) (auto simp: order_by_upload_date_desc_def mset_insert_desc)

lemma newest_first_order_by: "newest_first (order_by_upload_date_desc imgs)"
  by (induction imgs)
    (auto simp: order_by_upload_date_desc_def newest_first_def
      newest_first_insert_desc[unfolded newest_first_def])

lemma strictly_imp_distinct:
  "strictly_newest_first xs \<Longrightarrow> distinct (map upload_date xs)"
  by (induction xs) (auto simp: strictly_newest_first_def)

lemma newest_distinct_imp_strictly:
  "newest_first xs \<Longrightarrow> distinct (map upload_date xs) \<Longrightarrow> strictly_newest_first xs"
  unfolding newest_first_def strictly_newest_first_def
proof (induction xs)
  case Nil
  then show ?case by simp
next
  case (Cons a xs)
  have "upload_date y < upload_date a" if "y \<in> set xs" for y
  proof -
    have "upload_date y \<le> upload_date a"
      using Cons.prems(1) that by simp
    moreover have "upload_date a \<notin> upload_date ` set xs"
      using Cons.prems(2) by simp
    then have "upload_date y \<noteq> upload_date a"
      using that by (metis imageI)
    ultimately show ?thesis by simp
  qed
  then show ?case using Cons by simp
qed

lemma distinct_dates_perm:
  "mset xs = mset ys \<Longrightarrow> distinct (map upload_date xs) = distinct (map upload_date ys)"
proof -
  assume "mset xs = mset ys"
  then have "mset (map upload_date xs) = mset (map upload_date ys)" by simp
  then show ?thesis by (rule mset_eq_imp_distinct_iff)
qed

lemma fold_max_ge: "a \<le> fold max ids (a::nat) \<and> (\<forall>x \<in> set ids. x \<le> fold max ids a)"
proof (induction ids arbitrary: a)
  case Nil
  then show ?case by simp
next
  case (Cons i ids)
  have "max i a \<le> fold max ids (max i a)"
    using Cons.IH[of "max i a"] by simp
  then show ?case
    using Cons.IH[of "max i a"] by auto
qed

lemma next_id_fresh: "next_id ids \<notin> set ids"
proof
  assume "next_id ids \<in> set ids"
  then have "next_id ids \<le> fold max ids 0"
    using fold_max_ge[of 0 ids] by blast
  then show False by (simp add: next_id_def)
qed

lemma find_append_Some: "find P xs = Some x \<Longrightarrow> find P (xs @ ys) = Some x"
  by (induction xs) (auto split: if_splits)

lemma find_append_None: "find P xs = None \<Longrightarrow> find P (xs @ ys) = find P ys"
  by (induction xs) (auto split: if_splits)

lemma image_by_custom_slug_unique:
  "distinct (filter (\<lambda>c. c \<noteq> None) (map custom_slug imgs)) \<Longrightarrow> i \<in> set imgs \<Longrightarrow>
   custom_slug i = Some c \<Longrightarrow> image_by_custom_slug imgs c = Some i"
proof (induction imgs)
  case Nil
  then show ?case by simp
next
  case (Cons x xs)
  show ?case
  proof (cases "custom_slug x = Some c")
    case True
    then have "Some c \<notin> set (map custom_slug xs)"
      using Cons.prems(1) by auto
    then have "i = x"
      using Cons.prems(2,3) by force
    then show ?thesis
      using True by (simp add: image_by_custom_slug_def)
  next
    case False
    then have "i \<in> set xs"
      using Cons.prems(2,3) by auto
    moreover have "distinct (filter (\<lambda>c. c \<noteq> None) (map custom_slug xs))"
      using Cons.prems(1) by (simp split: if_splits)
    ultimately have "image_by_custom_slug xs c = Some i"
      using Cons.IH Cons.prems(3) by simp
    then show ?thesis
      using False by (simp add: image_by_custom_slug_def)
  qed
qed

lemma upload_effect:
  obtains (same) "state_after (upload L now m form s) = s"
  | (saved) name data where "image_part form = Some (name, data)"
      "state_after (upload L now m form s) =
         s\<lparr>files := save_upload L (files s) (secure_filename L name) data\<rparr>"
  | (added) name data cu where "image_part form = Some (name, data)"
      "form_custom_slug form = None \<or>
         form_custom_slug form \<notin> set (map custom_slug (images s))"
      "state_after (upload L now m form s) =
         s\<lparr>files := save_upload L (files s) (secure_filename L name) data,
           images := images s @
             [new_image (secure_filename L name) (form_custom_slug form) now cu
                (next_id (map i_id (images s)))]\<rparr>"
proof (cases "\<exists>cu name data. current_user s = Some cu \<and> m = POST \<and>
    image_part form = Some (name, data) \<and> name \<noteq> [] \<and> allowed_file name")
  case False
  then have "state_after (upload L now m form s) = s"
    by (auto simp: upload_def state_after_def unauthorized_def split: option.splits)
  then show ?thesis by (rule same)
next
  case True
  then obtain cu name data where h: "current_user s = Some cu" "m = POST"
      "image_part form = Some (name, data)" "name \<noteq> []" "allowed_file name"
    by blast
  let ?F = "save_upload L (files s) (secure_filename L name) data"
  let ?slug = "form_custom_slug form"
  show ?thesis
  proof (cases "slug_in_use (images s) ?slug")
    case True
    then have "state_after (upload L now m form s) = s\<lparr>files := ?F\<rparr>"
      using h by (simp add: upload_def state_after_def Let_def)
    then show ?thesis using h(3) by (rule saved[rotated])
  next
    case free: False
    show ?thesis
    proof (cases "?slug = None \<or> ?slug \<notin> set (map custom_slug (images s))")
      case True
      have "upload L now POST \<lparr>image_part = Some (name, data), form_custom_slug = ?slug\<rparr> s =
          (Redirect (EImageDetail (next_id (map i_id (images s)))),
           [''Image uploaded successfully!''],
           s\<lparr>files := ?F, images := images s @
             [new_image (secure_filename L name) ?slug now cu (next_id (map i_id (images s)))]\<rparr>)"
        using upload_accepted[OF h(1,4,5) True] .
      moreover have "form = \<lparr>image_part = Some (name, data), form_custom_slug = ?slug\<rparr>"
        using h(3) by simp
      ultimately have "state_after (upload L now m form s) =
          s\<lparr>files := ?F, images := images s @
             [new_image (secure_filename L name) ?slug now cu (next_id (map i_id (images s)))]\<rparr>"
        using h(2) by (simp add: state_after_def)
      then show ?thesis using h(3) True by (rule added[rotated 2])
    next
      case False
      then have "add_image (images s) (new_image (secure_filename L name) ?slug now cu) =
          Inl IntegrityError"
        by (auto simp: add_image_def new_image_def Let_def)
      then have "state_after (upload L now m form s) = s\<lparr>files := ?F\<rparr>"
        using h free by (simp add: upload_def state_after_def Let_def)
      then show ?thesis using h(3) by (rule saved[rotated])
    qed
  qed
qed

lemma register_effect:
  obtains (same) "state_after (register L m form s) = s"
  | (added) u h where "u \<notin> set (map username (users s))"
      "state_after (register L m form s) =
         s\<lparr>users := users s @ [\<lparr>u_id = next_id (map u_id (users s)), username = u,
                                   password_hash = h\<rparr>]\<rparr>"
proof (cases "\<exists>u p. m = POST \<and> form_username form = Some u \<and> form_password form = Some p \<and>
    u \<notin> set (map username (users s))")
  case True
  then obtain u p where h: "m = POST" "form_username form = Some u" "form_password form = Some p"
      "u \<notin> set (map username (users s))" by blast
  have "form = \<lparr>form_username = Some u, form_password = Some p\<rparr>"
    using h(2,3) by simp
  then have "state_after (register L m form s) =
      s\<lparr>users := users s @ [\<lparr>u_id = next_id (map u_id (users s)), username = u,
                                password_hash = generate_password_hash L p\<rparr>]\<rparr>"
    using register_fresh[OF h(4), of L p] h(1) by (simp add: state_after_def)
  with h(4) show ?thesis by (rule added)
next
  case False
  have "state_after (register L m form s) = s"
  proof (cases "form_username form")
    case None
    then show ?thesis
      by (simp add: register_def state_after_def user_by_username_def add_user_def
          split: option.splits)
  next
    case (Some u)
    then show ?thesis
      using False
      by (auto simp: register_def state_after_def user_by_username_None_iff add_user_def
          split: option.splits)
  qed
  then show ?thesis by (rule same)
qed

lemma login_effect:
  "state_after (login L m form s) = s \<or> (\<exists>k. state_after (login L m form s) = s\<lparr>session := k\<rparr>)"
  by (auto simp: login_def state_after_def split: option.splits)

lemma logout_effect:
  "state_after (logout s) = s \<or> state_after (logout s) = s\<lparr>session := None\<rparr>"
  by (auto simp: logout_def unauthorized_def state_after_def split: option.splits)

lemma state_after_triple: "state_after (r, fl, s) = s"
  by (simp add: state_after_def)

lemma read_only_effect:
  "state_after (index s) = s" "state_after (image_by_slug c s) = s"
  "state_after (uploaded_file n s) = s" "state_after (image_detail k s) = s"
  "state_after (handle (ReqImageBySlug c) s) = s"
  "state_after (handle (ReqUploadedFile n) s) = s"
  by (auto simp: index_def image_by_slug_def uploaded_file_def image_detail_def state_after_def
      split: option.splits)

lemma handle_images_grow: "\<exists>ys. images (state_after (handle q s)) = images s @ ys"
proof (cases q)
  case (ReqRegister L m form)
  then show ?thesis by (cases rule: register_effect[of L m form s]) auto
next
  case (ReqLogin L m form)
  then show ?thesis using login_effect[of L m form s] by auto
next
  case ReqLogout
  then show ?thesis using logout_effect[of s] by auto
next
  case (ReqUpload L now m form)
  then show ?thesis by (cases rule: upload_effect[of L now m form s]) auto
qed (simp_all add: read_only_effect state_after_triple)

lemma handle_files_frame:
  "\<not> stores_under q n \<Longrightarrow> files (state_after (handle q s)) n = files s n"
proof (cases q)
  case (ReqRegister L m form)
  then show ?thesis by (cases rule: register_effect[of L m form s]) auto
next
  case (ReqLogin L m form)
  then show ?thesis using login_effect[of L m form s] by auto
next
  case ReqLogout
  then show ?thesis using logout_effect[of s] by auto
next
  case (ReqUpload L now m form)
  assume quiet: "\<not> stores_under q n"
  show ?thesis
  proof (cases rule: upload_effect[of L now m form s])
    case same
    then show ?thesis using ReqUpload by simp
  next
    case (saved name data)
    then have "n \<noteq> secure_filename L name" "n \<noteq> ''thumb_'' @ secure_filename L name"
      using quiet ReqUpload by auto
    then show ?thesis using saved ReqUpload by (simp add: save_upload_other)
  next
    case (added name data cu)
    then have "n \<noteq> secure_filename L name" "n \<noteq> ''thumb_'' @ secure_filename L name"
      using quiet ReqUpload by auto
    then show ?thesis using added ReqUpload by (simp add: save_upload_other)
  qed
qed (simp_all add: read_only_effect state_after_triple)

lemma run_images_grow: "\<exists>ys. images (run qs s) = images s @ ys"
proof (induction qs arbitrary: s)
  case Nil
  then show ?case by simp
next
  case (Cons q qs)
  obtain ys where "images (state_after (handle q s)) = images s @ ys"
    using handle_images_grow by blast
  moreover obtain zs where
    "images (run qs (state_after (handle q s))) = images (state_after (handle q s)) @ zs"
    using Cons.IH by blast
  ultimately show ?case by simp
qed

lemma run_files_frame:
  "\<forall>q \<in> set qs. \<not> stores_under q n \<Longrightarrow> files (run qs s) n = files s n"
  by (induction qs arbitrary: s) (simp_all add: handle_files_frame)

lemma db_ok_handle: "db_ok s \<Longrightarrow> db_ok (state_after (handle q s))"
proof (cases q)
  case (ReqRegister L m form)
  assume "db_ok s"
  then show ?thesis
    using ReqRegister next_id_fresh[of "map u_id (users s)"]
    by (cases rule: register_effect[of L m form s]) (auto simp: db_ok_def)
next
  case (ReqLogin L m form)
  assume "db_ok s"
  then show ?thesis using ReqLogin login_effect[of L m form s] by (auto simp: db_ok_def)
next
  case ReqLogout
  assume "db_ok s"
  then show ?thesis using ReqLogout logout_effect[of s] by (auto simp: db_ok_def)
next
  case (ReqUpload L now m form)
  assume "db_ok s"
  then show ?thesis
    using ReqUpload next_id_fresh[of "map i_id (images s)"]
    by (cases rule: upload_effect[of L now m form s]) (auto simp: db_ok_def new_image_def)
qed (simp_all add: read_only_effect state_after_triple)

lemma db_ok_run: "db_ok s \<Longrightarrow> db_ok (run qs s)"
  by (induction qs arbitrary: s) (simp_all add: db_ok_handle)

lemma db_ok_init: "db_ok ex_init"
  by (simp add: db_ok_def ex_init_def)

lemma ex_same_tick_images:
  "images ex_same_tick =
     [\<lparr>i_id = 1, filename = ''cat.png'', thumbnail = Some ''thumb_cat.png'',
        custom_slug = Some ''kitty'', upload_date = 7, user_id = 1\<rparr>,
      \<lparr>i_id = 2, filename = ''dog.gif'', thumbnail = Some ''thumb_dog.gif'',
        custom_slug = None, upload_date = 7, user_id = 1\<rparr>]"
proof -
  have "None = None \<or> None \<notin> set (map custom_slug (images ex_with_kitty))" by simp
  from upload_accepted[OF ex_current_user_kitty _ allowed_ex(2) this, of ex_lib 7 ex_gif]
  have "images ex_same_tick = images ex_with_kitty @
      [new_image (secure_filename ex_lib ''dog.gif'') None 7
         \<lparr>u_id = 1, username = ''alice'', password_hash = ''sha:pw''\<rparr>
         (next_id (map i_id (images ex_with_kitty)))]"
    by (simp add: ex_same_tick_def ex_dog_def state_after_def)
  then show ?thesis
    by (simp add: ex_with_kitty_eq new_image_def next_id_def ex_lib_def)
qed

lemma ex_same_tick_listing:
  "map i_id (order_by_upload_date_desc (images ex_same_tick)) = [1, 2]"
  by (simp add: ex_same_tick_images order_by_upload_date_desc_def)

lemma ex_kitty_row_in: "ex_kitty_row \<in> set (images ex_with_kitty)"
  by (simp add: ex_with_kitty_eq ex_kitty_row_def)

section \<open>Claims\<close>

subsection \<open>C1: an upload whose thumbnail cannot be generated\<close>

text \<open>
  Claim C1, as amended.  An authenticated POST to \<^verbatim>\<open>/upload\<close> with a valid file, whose
  custom slug does not stand in the way, still succeeds when thumbnail generation raises:
  the response is the redirect to the new detail page with the success message, the
  original is stored, and exactly one row is added.  The row's \<^verbatim>\<open>thumbnail\<close> field is
  not left NULL: it holds \<^verbatim>\<open>"thumb_" + filename\<close>, as for every upload.  No thumbnail of
  the upload is written, and no file other than the original and the one under the
  \<^verbatim>\<open>thumb_\<close> name is touched; the file under the \<^verbatim>\<open>thumb_\<close> name is as before when the
  failure comes before \<^verbatim>\<open>img.save\<close> has opened it, and otherwise holds what the failed
  \<^verbatim>\<open>img.save\<close> left there, or is absent.
\<close>

theorem C1_thumbnail_failure_keeps_name:
  assumes "current_user s = Some cu" and "name \<noteq> []" and "allowed_file name"
    and "slug = None \<or> slug \<notin> set (map custom_slug (images s))"
    and "\<forall>t. pil_thumbnail L (''thumb_'' @ secure_filename L name) data \<noteq> Written t"
  shows "upload L now POST \<lparr>image_part = Some (name, data), form_custom_slug = slug\<rparr> s =
       (Redirect (EImageDetail (next_id (map i_id (images s)))),
        [''Image uploaded successfully!''],
        s\<lparr>files := save_upload L (files s) (secure_filename L name) data,
          images := images s @
            [\<lparr>i_id = next_id (map i_id (images s)), filename = secure_filename L name,
              thumbnail = Some (''thumb_'' @ secure_filename L name), custom_slug = slug,
              upload_date = now, user_id = u_id cu\<rparr>]\<rparr>) \<and>
     save_upload L (files s) (secure_filename L name) data (secure_filename L name) = Some data \<and>
     (\<forall>p. p \<noteq> secure_filename L name \<and> p \<noteq> ''thumb_'' @ secure_filename L name \<longrightarrow>
        save_upload L (files s) (secure_filename L name) data p = files s p) \<and>
     (pil_thumbnail L (''thumb_'' @ secure_filename L name) data = RaisedEarly \<longrightarrow>
        save_upload L (files s) (secure_filename L name) data (''thumb_'' @ secure_filename L name) =
          files s (''thumb_'' @ secure_filename L name)) \<and>
     (\<forall>partial cleanup.
        pil_thumbnail L (''thumb_'' @ secure_filename L name) data = RaisedInSave partial cleanup \<longrightarrow>
        save_upload L (files s) (secure_filename L name) data (''thumb_'' @ secure_filename L name) =
          (if cleanup \<and> files s (''thumb_'' @ secure_filename L name) = None then None
           else Some partial))"
proof -
  let ?n = "secure_filename L name"
  have neq: "''thumb_'' @ ?n \<noteq> ?n"
    by (rule thumb_name_neq)
  have up: "upload L now POST \<lparr>image_part = Some (name, data), form_custom_slug = slug\<rparr> s =
       (Redirect (EImageDetail (next_id (map i_id (images s)))),
        [''Image uploaded successfully!''],
        s\<lparr>files := save_upload L (files s) ?n data,
          images := images s @
            [\<lparr>i_id = next_id (map i_id (images s)), filename = ?n,
              thumbnail = Some (''thumb_'' @ ?n), custom_slug = slug,
              upload_date = now, user_id = u_id cu\<rparr>]\<rparr>)"
    using upload_accepted[OF assms(1-4)] by (simp add: new_image_def)
  have orig: "save_upload L (files s) ?n data ?n = Some data"
    by (rule save_upload_stored)
  have others: "\<forall>p. p \<noteq> ?n \<and> p \<noteq> ''thumb_'' @ ?n \<longrightarrow>
      save_upload L (files s) ?n data p = files s p"
    by (simp add: save_upload_other)
  have early: "pil_thumbnail L (''thumb_'' @ ?n) data = RaisedEarly \<longrightarrow>
      save_upload L (files s) ?n data (''thumb_'' @ ?n) = files s (''thumb_'' @ ?n)"
    using neq by (simp add: save_upload_eq)
  have late: "\<forall>partial cleanup.
      pil_thumbnail L (''thumb_'' @ ?n) data = RaisedInSave partial cleanup \<longrightarrow>
      save_upload L (files s) ?n data (''thumb_'' @ ?n) =
        (if cleanup \<and> files s (''thumb_'' @ ?n) = None then None else Some partial)"
    using neq by (simp add: save_upload_eq)
  show ?thesis
    using up orig others early late by blast
qed

text \<open>
  The theorem of C1 at an upload of an undecodable \<^verbatim>\<open>cat.png\<close> into an empty directory,
  and at an upload of \<^verbatim>\<open>cat.png\<close> for which \<^verbatim>\<open>img.save\<close> fails, into a directory that
  holds a thumbnail under the same name: that file is left empty.
\<close>

theorem C1_witness:
  "current_user ex_logged_in = Some \<lparr>u_id = 1, username = ''alice'', password_hash = ''sha:pw''\<rparr> \<and>
   allowed_file ''cat.png'' \<and>
   pil_thumbnail ex_lib (''thumb_'' @ secure_filename ex_lib ''cat.png'') ex_corrupt = RaisedEarly \<and>
   upload ex_lib 7 POST (ex_broken None) ex_logged_in =
     (Redirect (EImageDetail 1), [''Image uploaded successfully!''],
      ex_logged_in\<lparr>files := save_upload ex_lib (files ex_logged_in) ''cat.png'' ex_corrupt,
        images := [\<lparr>i_id = 1, filename = ''cat.png'', thumbnail = Some ''thumb_cat.png'',
                    custom_slug = None, upload_date = 7, user_id = 1\<rparr>]\<rparr>) \<and>
   save_upload ex_lib (files ex_logged_in) ''cat.png'' ex_corrupt ''cat.png'' = Some ex_corrupt \<and>
   save_upload ex_lib (files ex_logged_in) ''cat.png'' ex_corrupt ''thumb_cat.png'' = None \<and>
   current_user ex_with_kitty = Some \<lparr>u_id = 1, username = ''alice'', password_hash = ''sha:pw''\<rparr> \<and>
   pil_thumbnail ex_lib_save_fails (''thumb_'' @ secure_filename ex_lib_save_fails ''cat.png'') ex_gif =
     RaisedInSave [] True \<and>
   files ex_with_kitty ''thumb_cat.png'' = Some [137] \<and>
   fst (upload ex_lib_save_fails 9 POST ex_cat_again ex_with_kitty) = Redirect (EImageDetail 2) \<and>
   save_upload ex_lib_save_fails (files ex_with_kitty) ''cat.png'' ex_gif ''cat.png'' = Some ex_gif \<and>
   save_upload ex_lib_save_fails (files ex_with_kitty) ''cat.png'' ex_gif ''thumb_cat.png'' = Some []"
proof -
  have h1: "current_user ex_logged_in =
      Some \<lparr>u_id = 1, username = ''alice'', password_hash = ''sha:pw''\<rparr>"
    by (rule ex_current_user)
  have h2: "''cat.png'' \<noteq> []" by simp
  have h3: "allowed_file ''cat.png''" by (rule allowed_ex)
  have h4: "None = None \<or> None \<notin> set (map custom_slug (images ex_logged_in))" by simp
  have e: "pil_thumbnail ex_lib (''thumb_'' @ secure_filename ex_lib ''cat.png'') ex_corrupt = RaisedEarly"
    by (simp add: ex_lib_def ex_corrupt_def)
  then have h5: "\<forall>t. pil_thumbnail ex_lib (''thumb_'' @ secure_filename ex_lib ''cat.png'') ex_corrupt
      \<noteq> Written t"
    by simp
  have g4: "None = None \<or> None \<notin> set (map custom_slug (images ex_with_kitty))" by simp
  have l: "pil_thumbnail ex_lib_save_fails
      (''thumb_'' @ secure_filename ex_lib_save_fails ''cat.png'') ex_gif = RaisedInSave [] True"
    by (simp add: ex_lib_save_fails_def)
  then have g5: "\<forall>t. pil_thumbnail ex_lib_save_fails
      (''thumb_'' @ secure_filename ex_lib_save_fails ''cat.png'') ex_gif \<noteq> Written t"
    by simp
  have sf: "secure_filename ex_lib ''cat.png'' = ''cat.png''"
      "secure_filename ex_lib_save_fails ''cat.png'' = ''cat.png''"
    by (simp_all add: ex_lib_def ex_lib_save_fails_def)
  have old: "files ex_with_kitty ''thumb_cat.png'' = Some [137]"
    by (simp add: ex_with_kitty_eq)
  have none: "files ex_logged_in ''thumb_cat.png'' = None"
    by (simp add: ex_logged_in_eq)
  have ids: "next_id (map i_id (images ex_logged_in)) = 1" "images ex_logged_in = []"
      "next_id (map i_id (images ex_with_kitty)) = 2"
    by (simp_all add: ex_logged_in_eq ex_with_kitty_eq next_id_def)
  note first = C1_thumbnail_failure_keeps_name[OF h1 h2 h3 h4 h5, of 7]
  note second = C1_thumbnail_failure_keeps_name[OF ex_current_user_kitty h2 h3 g4 g5, of 9]
  have a: "upload ex_lib 7 POST (ex_broken None) ex_logged_in =
     (Redirect (EImageDetail 1), [''Image uploaded successfully!''],
      ex_logged_in\<lparr>files := save_upload ex_lib (files ex_logged_in) ''cat.png'' ex_corrupt,
        images := [\<lparr>i_id = 1, filename = ''cat.png'', thumbnail = Some ''thumb_cat.png'',
                    custom_slug = None, upload_date = 7, user_id = 1\<rparr>]\<rparr>)"
    using first ids(1,2) sf(1) by (simp add: ex_broken_def)
  have b: "save_upload ex_lib (files ex_logged_in) ''cat.png'' ex_corrupt ''cat.png'' = Some ex_corrupt"
      "save_upload ex_lib (files ex_logged_in) ''cat.png'' ex_corrupt ''thumb_cat.png'' = None"
    using first e none sf(1) by simp_all
  have c: "fst (upload ex_lib_save_fails 9 POST ex_cat_again ex_with_kitty) =
      Redirect (EImageDetail 2)"
    using second ids(3) by (simp add: ex_cat_again_def)
  have d: "save_upload ex_lib_save_fails (files ex_with_kitty) ''cat.png'' ex_gif ''cat.png'' =
        Some ex_gif"
      "save_upload ex_lib_save_fails (files ex_with_kitty) ''cat.png'' ex_gif ''thumb_cat.png'' =
        Some []"
    using second l old sf(2) by auto
  show ?thesis
    using h1 h3 e a b ex_current_user_kitty l old c d by simp
qed

text \<open>
  C1 as stated fails there: generation raises, the upload succeeds, and the field of the
  created row is not NULL.
\<close>

theorem C1_thumbnail_not_null_counterexample:
  "pil_thumbnail ex_lib ''thumb_cat.png'' ex_corrupt = RaisedEarly \<and>
   fst (upload ex_lib 7 POST (ex_broken None) ex_logged_in) = Redirect (EImageDetail 1) \<and>
   map thumbnail (images (state_after (upload ex_lib 7 POST (ex_broken None) ex_logged_in))) =
     [Some ''thumb_cat.png''] \<and>
   Some ''thumb_cat.png'' \<noteq> (None :: string option)"
proof -
  have "upload ex_lib 7 POST (ex_broken None) ex_logged_in =
     (Redirect (EImageDetail 1), [''Image uploaded successfully!''],
      ex_logged_in\<lparr>files := save_upload ex_lib (files ex_logged_in) ''cat.png'' ex_corrupt,
        images := [new_image ''cat.png'' None 7
           \<lparr>u_id = 1, username = ''alice'', password_hash = ''sha:pw''\<rparr> 1]\<rparr>)"
    using upload_accepted[OF ex_current_user, of "''cat.png''" None ex_lib 7 ex_corrupt] allowed_ex(1)
    by (simp add: ex_broken_def ex_lib_def ex_logged_in_eq next_id_def)
  then show ?thesis
    by (simp add: state_after_def new_image_def ex_lib_def ex_corrupt_def)
qed

subsection \<open>C2: conflicts on a unique column\<close>

text \<open>
  Claim C2, as amended.  A conflict on \<^verbatim>\<open>username\<close> at \<^verbatim>\<open>/register\<close>, or on a custom slug
  that is not empty at \<^verbatim>\<open>/upload\<close>, is found by the query the view function makes before
  it inserts, and becomes a flashed message with a redirect back to the form; nothing is
  inserted, and with a user name in the form, or a custom slug other than the empty
  string, no \<open>IntegrityError\<close> leaves the view function.  The view functions have no
  handler for an error raised by the insert itself.
\<close>

theorem C2_prechecked_conflicts_become_messages:
  "(u \<in> set (map username (users s)) \<longrightarrow>
      register L POST \<lparr>form_username = Some u, form_password = pw\<rparr> s =
        (Redirect ERegister, [''Username already exists!''], s)) \<and>
   fst (register L m \<lparr>form_username = Some u, form_password = pw\<rparr> s) \<noteq> Raise IntegrityError \<and>
   (current_user s = Some cu \<and> name \<noteq> [] \<and> allowed_file name \<and> c \<noteq> [] \<and>
    Some c \<in> set (map custom_slug (images s)) \<longrightarrow>
      upload L now POST \<lparr>image_part = Some (name, data), form_custom_slug = Some c\<rparr> s =
        (Redirect EUpload, [''Custom link already in use. Please choose another.''],
         s\<lparr>files := save_upload L (files s) (secure_filename L name) data\<rparr>)) \<and>
   (slug \<noteq> Some [] \<longrightarrow>
      fst (upload L now m \<lparr>image_part = part, form_custom_slug = slug\<rparr> s) \<noteq>
        Raise IntegrityError)"
  using register_existing[of u s L pw] register_no_integrity_error[of L m u pw s]
    upload_slug_taken[of s cu name c L now data]
    upload_no_integrity_error[of "\<lparr>image_part = part, form_custom_slug = slug\<rparr>" L now m s]
  by simp

text \<open>
  The theorem of C2 at a second registration of \<^verbatim>\<open>alice\<close> and at an upload that asks
  for the custom slug \<^verbatim>\<open>kitty\<close>, which is in use.
\<close>

theorem C2_witness:
  "''alice'' \<in> set (map username (users ex_with_kitty)) \<and>
   register ex_lib POST \<lparr>form_username = Some ''alice'', form_password = Some ''other''\<rparr>
       ex_with_kitty =
     (Redirect ERegister, [''Username already exists!''], ex_with_kitty) \<and>
   current_user ex_with_kitty =
     Some \<lparr>u_id = 1, username = ''alice'', password_hash = ''sha:pw''\<rparr> \<and>
   allowed_file ''dog.gif'' \<and>
   Some ''kitty'' \<in> set (map custom_slug (images ex_with_kitty)) \<and>
   upload ex_lib 8 POST (ex_dog (Some ''kitty'')) ex_with_kitty =
     (Redirect EUpload, [''Custom link already in use. Please choose another.''],
      ex_with_kitty\<lparr>files := save_upload ex_lib (files ex_with_kitty) ''dog.gif'' ex_gif\<rparr>) \<and>
   fst (upload ex_lib 8 POST (ex_dog (Some ''puppy'')) ex_with_kitty) \<noteq> Raise IntegrityError"
proof -
  have h1: "''alice'' \<in> set (map username (users ex_with_kitty))"
    by (simp add: ex_with_kitty_eq)
  have h2: "Some ''kitty'' \<in> set (map custom_slug (images ex_with_kitty))"
    by (simp add: ex_with_kitty_eq)
  have h3: "secure_filename ex_lib ''dog.gif'' = ''dog.gif''"
    by (simp add: ex_lib_def)
  show ?thesis
    using C2_prechecked_conflicts_become_messages[where u = "''alice''" and s = ex_with_kitty
        and L = ex_lib and pw = "Some ''other''" and m = POST
        and cu = "\<lparr>u_id = 1, username = ''alice'', password_hash = ''sha:pw''\<rparr>"
        and name = "''dog.gif''" and c = "''kitty''" and now = 8 and data = ex_gif
        and slug = "Some ''puppy''" and part = "Some (''dog.gif'', ex_gif)"]
      h1 h2 h3 ex_current_user_kitty allowed_ex(2)
    by (simp add: ex_dog_def)
qed

text \<open>
  C2 as stated fails for a conflict the view function does not look for: a second row
  with the empty custom slug passes \<^verbatim>\<open>if custom_slug:\<close> unexamined, the insert breaks the
  unique constraint, and the \<open>IntegrityError\<close> leaves \<^verbatim>\<open>upload\<close> with no message flashed.
\<close>

theorem C2_unchecked_conflict_counterexample:
  "\<not> slug_in_use (images ex_blank_slug) (Some []) \<and>
   Some [] \<in> set (map custom_slug (images ex_blank_slug)) \<and>
   upload ex_lib 8 POST (ex_cat (Some [])) ex_blank_slug =
     (Raise IntegrityError, [], ex_blank_slug)"
proof -
  have h: "Some [] \<in> set (map custom_slug (images ex_blank_slug))"
    by (simp add: ex_blank_slug_eq)
  have "save_upload ex_lib (files ex_blank_slug) ''cat.png'' ex_png = files ex_blank_slug"
    by (simp add: ex_blank_slug_eq save_upload_eq ex_lib_def ex_png_def)
  then show ?thesis
    using upload_blank_taken[OF ex_current_user_blank _ allowed_ex(1) h, of ex_lib 8 ex_png] h
    by (simp add: ex_cat_def slug_in_use_iff ex_lib_def)
qed

subsection \<open>C3: the custom slug field left blank\<close>

text \<open>
  Claim C3 at two uploads whose \<^verbatim>\<open>custom_slug\<close> field is present and empty.  The first
  succeeds, and its row holds the empty string, not NULL: \<^verbatim>\<open>if custom_slug:\<close> skips the
  look-up for a blank field, as for no slug, but the row is still built from the value
  of the form.  The second therefore ends in an \<open>IntegrityError\<close> and adds no row, where
  the claim has both uploads succeed.
\<close>

theorem C3_blank_slug_is_stored:
  "form_custom_slug (ex_cat (Some [])) = Some [] \<and>
   fst (upload ex_lib 7 POST (ex_cat (Some [])) ex_logged_in) = Redirect (EImageDetail 1) \<and>
   state_after (upload ex_lib 7 POST (ex_cat (Some [])) ex_logged_in) = ex_blank_slug \<and>
   map custom_slug (images ex_blank_slug) = [Some []] \<and>
   fst (upload ex_lib 8 POST (ex_dog (Some [])) ex_blank_slug) = Raise IntegrityError \<and>
   images (state_after (upload ex_lib 8 POST (ex_dog (Some [])) ex_blank_slug)) =
     images ex_blank_slug"
proof -
  have h: "Some [] \<in> set (map custom_slug (images ex_blank_slug))"
    by (simp add: ex_blank_slug_eq)
  have a: "fst (upload ex_lib 7 POST (ex_cat (Some [])) ex_logged_in) = Redirect (EImageDetail 1)"
    using upload_accepted[OF ex_current_user, of "''cat.png''" "Some []" ex_lib 7 ex_png]
      allowed_ex(1)
    by (simp add: ex_cat_def ex_logged_in_eq next_id_def)
  have b: "state_after (upload ex_lib 7 POST (ex_cat (Some [])) ex_logged_in) = ex_blank_slug"
    by (simp add: ex_blank_slug_def)
  show ?thesis
    using upload_blank_taken[OF ex_current_user_blank _ allowed_ex(2) h, of ex_lib 8 ex_gif] a b
    by (simp add: ex_dog_def ex_cat_def state_after_def ex_blank_slug_eq)
qed

subsection \<open>C4: a custom slug that is taken\<close>

text \<open>
  Claim C4.  An authenticated POST to \<^verbatim>\<open>/upload\<close> with a valid file and a custom slug
  that an image already holds is answered with the message that the link is in use and
  a redirect to the upload page, which renders the form.  The table of images is
  unchanged; the directory holds the file as saved once, before the slug was looked at.
  The same upload sent again with a custom slug that no image holds succeeds, adds the
  one row, and leaves the directory as the rejected request left it.
\<close>

theorem C4_taken_slug_rejected_retry_succeeds:
  assumes "current_user s = Some cu" and "name \<noteq> []" and "allowed_file name"
    and "c \<noteq> []" and "Some c \<in> set (map custom_slug (images s))"
    and "c' \<noteq> []" and "Some c' \<notin> set (map custom_slug (images s))"
    and "upload L now POST \<lparr>image_part = Some (name, data), form_custom_slug = Some c\<rparr> s =
           (r, fl, s1)"
  shows "r = Redirect EUpload \<and>
     fl = [''Custom link already in use. Please choose another.''] \<and>
     s1 = s\<lparr>files := save_upload L (files s) (secure_filename L name) data\<rparr> \<and>
     images s1 = images s \<and>
     upload L now' GET form s1 = (RenderTemplate ''upload.html'', [], s1) \<and>
     upload L now' POST \<lparr>image_part = Some (name, data), form_custom_slug = Some c'\<rparr> s1 =
       (Redirect (EImageDetail (next_id (map i_id (images s)))),
        [''Image uploaded successfully!''],
        s1\<lparr>images := images s @
          [new_image (secure_filename L name) (Some c') now' cu (next_id (map i_id (images s)))]\<rparr>)"
proof -
  have first: "r = Redirect EUpload"
      "fl = [''Custom link already in use. Please choose another.'']"
      "s1 = s\<lparr>files := save_upload L (files s) (secure_filename L name) data\<rparr>"
    using upload_slug_taken[OF assms(1-5), of L now data] assms(8) by simp_all
  have cu1: "current_user s1 = Some cu"
    using assms(1) first(3) by (simp add: current_user_files)
  have imgs: "images s1 = images s"
    using first(3) by simp
  have free: "Some c' = None \<or> Some c' \<notin> set (map custom_slug (images s1))"
    using assms(7) imgs by simp
  have again: "save_upload L (files s1) (secure_filename L name) data = files s1"
    using first(3) by (simp add: save_upload_idem)
  have retry: "upload L now' POST \<lparr>image_part = Some (name, data), form_custom_slug = Some c'\<rparr> s1 =
       (Redirect (EImageDetail (next_id (map i_id (images s)))),
        [''Image uploaded successfully!''],
        s1\<lparr>images := images s @
          [new_image (secure_filename L name) (Some c') now' cu (next_id (map i_id (images s)))]\<rparr>)"
    using upload_accepted[OF cu1 assms(2,3) free, of L now' data] again imgs by simp
  show ?thesis
    using first imgs upload_get[OF cu1] retry by simp
qed

text \<open>
  The theorem of C4 at an upload of \<^verbatim>\<open>dog.gif\<close> that asks for \<^verbatim>\<open>kitty\<close>, then for
  \<^verbatim>\<open>puppy\<close>.
\<close>

theorem C4_witness:
  "current_user ex_with_kitty =
     Some \<lparr>u_id = 1, username = ''alice'', password_hash = ''sha:pw''\<rparr> \<and>
   allowed_file ''dog.gif'' \<and>
   Some ''kitty'' \<in> set (map custom_slug (images ex_with_kitty)) \<and>
   Some ''puppy'' \<notin> set (map custom_slug (images ex_with_kitty)) \<and>
   upload ex_lib 8 POST (ex_dog (Some ''kitty'')) ex_with_kitty =
     (Redirect EUpload, [''Custom link already in use. Please choose another.''], ex_rejected) \<and>
   images ex_rejected = images ex_with_kitty \<and>
   upload ex_lib 9 GET (ex_dog None) ex_rejected = (RenderTemplate ''upload.html'', [], ex_rejected) \<and>
   upload ex_lib 9 POST (ex_dog (Some ''puppy'')) ex_rejected =
     (Redirect (EImageDetail 2), [''Image uploaded successfully!''],
      ex_rejected\<lparr>images := images ex_with_kitty @
        [\<lparr>i_id = 2, filename = ''dog.gif'', thumbnail = Some ''thumb_dog.gif'',
          custom_slug = Some ''puppy'', upload_date = 9, user_id = 1\<rparr>]\<rparr>)"
proof -
  have h5: "Some ''kitty'' \<in> set (map custom_slug (images ex_with_kitty))"
    by (simp add: ex_with_kitty_eq)
  have h7: "Some ''puppy'' \<notin> set (map custom_slug (images ex_with_kitty))"
    by (simp add: ex_with_kitty_eq)
  have h8: "upload ex_lib 8 POST \<lparr>image_part = Some (''dog.gif'', ex_gif),
        form_custom_slug = Some ''kitty''\<rparr> ex_with_kitty =
      (Redirect EUpload, [''Custom link already in use. Please choose another.''], ex_rejected)"
    using upload_slug_taken[where L = ex_lib and now = 8 and data = ex_gif,
        OF ex_current_user_kitty _ allowed_ex(2) _ h5]
    by (simp add: ex_rejected_def ex_dog_def state_after_def)
  have ids: "next_id (map i_id (images ex_with_kitty)) = 2"
    by (simp add: ex_with_kitty_eq next_id_def)
  have sf: "secure_filename ex_lib ''dog.gif'' = ''dog.gif''"
    by (simp add: ex_lib_def)
  show ?thesis
    using C4_taken_slug_rejected_retry_succeeds[where now' = 9 and form = "ex_dog None"
        and c' = "''puppy''", OF ex_current_user_kitty _ allowed_ex(2) _ h5 _ h7 h8]
      ex_current_user_kitty allowed_ex(2) h5 h7 h8
    by (simp add: ex_dog_def ids sf new_image_def)
qed

subsection \<open>C5: a file name that is not allowed\<close>

text \<open>
  Claim C5 at \<^verbatim>\<open>virus.exe\<close> and at \<^verbatim>\<open>README\<close>: the file is refused and the state is
  unchanged, so no row is created, but the list of flashed messages is empty.  The
  refusals next to this one in \<^verbatim>\<open>upload\<close> (no file part, no selected file, custom link
  in use) each call \<^verbatim>\<open>flash\<close>; this branch has no \<^verbatim>\<open>else\<close> and renders the bare form.
\<close>

theorem C5_disallowed_extension_no_message:
  "\<not> allowed_file ''virus.exe'' \<and> \<not> allowed_file ''README'' \<and>
   upload ex_lib 7 POST ex_virus ex_logged_in = (RenderTemplate ''upload.html'', [], ex_logged_in) \<and>
   upload ex_lib 7 POST ex_readme ex_logged_in = (RenderTemplate ''upload.html'', [], ex_logged_in)"
  using upload_disallowed[OF ex_current_user, of "''virus.exe''" ex_lib 7 ex_png None]
    upload_disallowed[OF ex_current_user, of "''README''" ex_lib 7 ex_png None] allowed_ex(4,5)
  by (simp add: ex_virus_def ex_readme_def)

subsection \<open>C6: registering a user name twice\<close>

text \<open>
  Claim C6.  After a POST to \<^verbatim>\<open>/register\<close> with a user name and a password, in a
  database that satisfies its constraints, every further POST with the same user name
  is answered with the message that the user name already exists and a redirect to the
  registration page, which renders the form; the state is unchanged, and exactly one
  row of the user table has that name.
\<close>

theorem C6_second_registration_rejected:
  assumes "db_ok s"
    and "register L POST \<lparr>form_username = Some u, form_password = Some p\<rparr> s = (r1, fl1, s1)"
  shows "register L' POST \<lparr>form_username = Some u, form_password = pw'\<rparr> s1 =
       (Redirect ERegister, [''Username already exists!''], s1) \<and>
     register L' GET form s1 = (RenderTemplate ''register.html'', [], s1) \<and>
     length (filter (\<lambda>x. username x = u) (users s1)) = 1"
proof (cases "u \<in> set (map username (users s))")
  case True
  then have "s1 = s"
    using register_existing[OF True, of L "Some p"] assms(2) by simp
  moreover have "length (filter (\<lambda>x. username x = u) (users s)) = 1"
    using assms(1) True by (simp add: db_ok_def count_unique)
  ultimately show ?thesis
    using register_existing[OF True, of L' pw'] by (simp add: register_def)
next
  case False
  then have s1: "s1 = s\<lparr>users := users s @
      [\<lparr>u_id = next_id (map u_id (users s)), username = u,
        password_hash = generate_password_hash L p\<rparr>]\<rparr>"
    using register_fresh[OF False, of L p] assms(2) by simp
  then have "u \<in> set (map username (users s1))" by simp
  moreover have "length (filter (\<lambda>x. username x = u) (users s1)) = 1"
    using s1 False by (simp add: count_absent)
  ultimately show ?thesis
    using register_existing[of u s1 L' pw'] by (simp add: register_def)
qed

text \<open>The theorem of C6 at two registrations of \<^verbatim>\<open>alice\<close> in the empty database.\<close>

theorem C6_witness:
  "db_ok ex_init \<and>
   register ex_lib POST ex_alice ex_init =
     (Redirect ELogin, [''Registration successful! Please login.''], ex_registered) \<and>
   register ex_lib POST \<lparr>form_username = Some ''alice'', form_password = Some ''again''\<rparr>
       ex_registered =
     (Redirect ERegister, [''Username already exists!''], ex_registered) \<and>
   length (filter (\<lambda>x. username x = ''alice'') (users ex_registered)) = 1"
proof -
  have h1: "db_ok ex_init"
    by (simp add: db_ok_def ex_init_def)
  have h2: "register ex_lib POST \<lparr>form_username = Some ''alice'', form_password = Some ''pw''\<rparr>
      ex_init = (Redirect ELogin, [''Registration successful! Please login.''], ex_registered)"
    using register_fresh[of "''alice''" ex_init ex_lib "''pw''"]
    by (simp add: ex_registered_eq ex_init_def next_id_def ex_lib_def)
  show ?thesis
    using C6_second_registration_rejected[OF h1 h2, where L' = ex_lib and pw' = "Some ''again''"]
      h1 h2
    by (simp add: ex_alice_def)
qed

subsection \<open>C7: logging in\<close>

text \<open>
  Claim C7.  A POST to \<^verbatim>\<open>/login\<close> calls \<^verbatim>\<open>login_user\<close> and redirects to the listing
  if and only if a user with the submitted name exists and the submitted password
  matches that user's stored hash under \<^verbatim>\<open>check_password_hash\<close>; the session then
  holds that user's id.  In every other case the state, and with it the session, is as
  before the request; and a password that is submitted and does not match is answered
  with the message \<^verbatim>\<open>Invalid username or password\<close> and a redirect to the login page.
\<close>

theorem C7_login_iff_credentials_match:
  assumes "db_ok s"
    and "login L POST \<lparr>form_username = name, form_password = pw\<rparr> s = (r, fl, s')"
  shows "((r = Redirect EIndex) =
       (\<exists>u \<in> set (users s). Some (username u) = name \<and>
          (\<exists>p. pw = Some p \<and> check_password_hash L (password_hash u) p))) \<and>
     (r = Redirect EIndex \<longrightarrow>
       (\<exists>u \<in> set (users s). Some (username u) = name \<and> s' = s\<lparr>session := Some (u_id u)\<rparr>)) \<and>
     (r \<noteq> Redirect EIndex \<longrightarrow> s' = s) \<and>
     (\<forall>u \<in> set (users s). \<forall>p. Some (username u) = name \<and> pw = Some p \<and>
          \<not> check_password_hash L (password_hash u) p \<longrightarrow>
        r = Redirect ELogin \<and> fl = [''Invalid username or password''] \<and> s' = s)"
    (is "(?established = ?matches) \<and> ?bound \<and> ?kept \<and> ?wrong")
proof (cases "user_by_username (users s) name")
  case None
  have nobody: "Some (username u) \<noteq> name" if "u \<in> set (users s)" for u
    using user_by_username_None[OF None that] .
  have out: "r = Redirect ELogin" "s' = s"
    using assms(2) None by (simp_all add: login_def)
  have "\<not> ?matches" using nobody by blast
  moreover have "\<not> ?established" using out(1) by simp
  moreover have ?kept using out(2) by simp
  moreover have ?wrong using nobody by blast
  ultimately show ?thesis by blast
next
  case found: (Some u0)
  have u0: "u0 \<in> set (users s)" "Some (username u0) = name"
    using user_by_username_Some[OF found] by simp_all
  have only: "u = u0" if "u \<in> set (users s)" "Some (username u) = name" for u
  proof -
    have "distinct (map username (users s))"
      using assms(1) by (simp add: db_ok_def)
    from user_by_username_unique[OF this that] found show ?thesis by simp
  qed
  show ?thesis
  proof (cases pw)
    case None
    have out: "r = Raise AttributeError" "s' = s"
      using assms(2) found None by (simp_all add: login_def)
    have "\<not> ?matches" using None by simp
    moreover have "\<not> ?established" using out(1) by simp
    moreover have ?kept using out(2) by simp
    moreover have ?wrong using None by simp
    ultimately show ?thesis by blast
  next
    case (Some p)
    show ?thesis
    proof (cases "check_password_hash L (password_hash u0) p")
      case True
      have out: "r = Redirect EIndex" "s' = s\<lparr>session := Some (u_id u0)\<rparr>"
        using assms(2) found Some True by (simp_all add: login_def)
      have ?matches using u0 Some True by blast
      moreover have ?established using out(1) .
      moreover have ?bound using u0 out(2) by blast
      moreover have ?kept using out(1) by simp
      moreover have ?wrong
      proof (intro ballI allI impI)
        fix u q
        assume "u \<in> set (users s)"
          and "Some (username u) = name \<and> pw = Some q \<and>
            \<not> check_password_hash L (password_hash u) q"
        then have "u = u0" "q = p" "\<not> check_password_hash L (password_hash u) q"
          using only Some by simp_all
        then show "r = Redirect ELogin \<and> fl = [''Invalid username or password''] \<and> s' = s"
          using True by simp
      qed
      ultimately show ?thesis by blast
    next
      case False
      have out: "r = Redirect ELogin" "fl = [''Invalid username or password'']" "s' = s"
        using assms(2) found Some False by (simp_all add: login_def)
      have "\<not> ?matches"
      proof
        assume ?matches
        then obtain u q where "u \<in> set (users s)" "Some (username u) = name" "pw = Some q"
          "check_password_hash L (password_hash u) q" by blast
        then have "check_password_hash L (password_hash u0) p"
          using only Some by simp
        then show False using False by simp
      qed
      moreover have "\<not> ?established" using out(1) by simp
      moreover have ?kept using out(3) by simp
      moreover have ?wrong using out by simp
      ultimately show ?thesis by blast
    qed
  qed
qed

text \<open>
  The theorem of C7 at a login of \<^verbatim>\<open>alice\<close> with the password \<^verbatim>\<open>guess\<close>, next to the
  login with her password.
\<close>

theorem C7_witness:
  "db_ok ex_registered \<and>
   login ex_lib POST ex_alice ex_registered = (Redirect EIndex, [], ex_logged_in) \<and>
   check_password_hash ex_lib ''sha:pw'' ''pw'' \<and>
   login ex_lib POST ex_wrong ex_registered =
     (Redirect ELogin, [''Invalid username or password''], ex_registered) \<and>
   \<not> check_password_hash ex_lib ''sha:pw'' ''guess'' \<and>
   session ex_registered = None"
proof -
  have h1: "db_ok ex_registered"
    by (simp add: db_ok_def ex_registered_eq)
  have good: "login ex_lib POST \<lparr>form_username = Some ''alice'', form_password = Some ''pw''\<rparr>
      ex_registered = (Redirect EIndex, [], ex_logged_in)"
    by (simp add: login_def user_by_username_def ex_registered_eq ex_logged_in_eq ex_lib_def)
  have bad: "login ex_lib POST
      \<lparr>form_username = Some ''alice'', form_password = Some ''guess''\<rparr> ex_registered =
      (Redirect ELogin, [''Invalid username or password''], ex_registered)"
    by (simp add: login_def user_by_username_def ex_registered_eq ex_lib_def)
  have c: "check_password_hash ex_lib ''sha:pw'' ''pw''" "\<not> check_password_hash ex_lib ''sha:pw'' ''guess''"
    by (simp_all add: ex_lib_def)
  have none: "session ex_registered = None"
    by (simp add: ex_registered_eq)
  show ?thesis
    using C7_login_iff_credentials_match[OF h1 bad] h1 good bad c none
    by (simp add: ex_alice_def ex_wrong_def)
qed

subsection \<open>C8: the order of the listing\<close>

text \<open>
  Claim C8, as amended.  In every state \<^verbatim>\<open>GET /\<close> renders all rows of the image table,
  each as often as the table holds it, in descending order of \<^verbatim>\<open>upload_date\<close>: no row is
  listed before a row with a later date.  The order is strictly descending exactly when
  no two rows have the same date.
\<close>

theorem C8_index_newest_first:
  "index s = (RenderIndex (order_by_upload_date_desc (images s)), [], s) \<and>
   mset (order_by_upload_date_desc (images s)) = mset (images s) \<and>
   newest_first (order_by_upload_date_desc (images s)) \<and>
   strictly_newest_first (order_by_upload_date_desc (images s)) =
     distinct (map upload_date (images s))"
proof -
  have "strictly_newest_first (order_by_upload_date_desc (images s)) =
      distinct (map upload_date (order_by_upload_date_desc (images s)))"
    using strictly_imp_distinct newest_distinct_imp_strictly[OF newest_first_order_by] by blast
  then show ?thesis
    using distinct_dates_perm[OF mset_order_by, of "images s"]
    by (simp add: index_def mset_order_by newest_first_order_by)
qed

text \<open>
  C8 as stated fails in the state after two uploads in the same clock tick: the listing
  holds two rows with equal dates, so it is not strictly descending.
\<close>

theorem C8_equal_dates_counterexample:
  "fst (index ex_same_tick) = RenderIndex (order_by_upload_date_desc (images ex_same_tick)) \<and>
   map upload_date (order_by_upload_date_desc (images ex_same_tick)) = [7, 7] \<and>
   \<not> strictly_newest_first (order_by_upload_date_desc (images ex_same_tick))"
  by (simp add: index_def ex_same_tick_images order_by_upload_date_desc_def
      strictly_newest_first_def)

subsection \<open>C9: the way back from a custom slug\<close>

text \<open>
  Claim C9, as amended.  After an authenticated upload of a valid file with a custom slug
  that is one path segment (not empty, no slash) and that no image holds, the upload
  succeeds, the slug resolves to the created row, and \<^verbatim>\<open>GET /i/<slug>\<close> sends the
  uploaded bytes unchanged: at once, and also after any further requests among which no
  upload stores under that file name.  For a slug that no image holds, in any state,
  \<^verbatim>\<open>GET /i/<slug>\<close> is the 404 response.
\<close>

theorem C9_slug_round_trip:
  assumes "current_user s = Some cu" and "name \<noteq> []" and "allowed_file name"
    and "url_segment c" and "Some c \<notin> set (map custom_slug (images s))"
    and "upload L now POST \<lparr>image_part = Some (name, data), form_custom_slug = Some c\<rparr> s =
           (r, fl, s')"
    and "\<forall>q \<in> set later. \<not> stores_under q (secure_filename L name)"
  shows "r = Redirect (EImageDetail (next_id (map i_id (images s)))) \<and>
     fl = [''Image uploaded successfully!''] \<and>
     image_by_custom_slug (images s') c =
       Some (new_image (secure_filename L name) (Some c) now cu (next_id (map i_id (images s)))) \<and>
     handle (ReqImageBySlug c) s' = (SendFile data, [], s') \<and>
     image_by_custom_slug (images (run later s')) c =
       Some (new_image (secure_filename L name) (Some c) now cu (next_id (map i_id (images s)))) \<and>
     handle (ReqImageBySlug c) (run later s') = (SendFile data, [], run later s') \<and>
     (Some c2 \<notin> set (map custom_slug (images t)) \<longrightarrow>
        handle (ReqImageBySlug c2) t = (Abort404, [], t))"
proof -
  let ?n = "secure_filename L name"
  let ?row = "new_image ?n (Some c) now cu (next_id (map i_id (images s)))"
  have free: "Some c = None \<or> Some c \<notin> set (map custom_slug (images s))"
    using assms(5) by simp
  have out: "r = Redirect (EImageDetail (next_id (map i_id (images s))))"
      "fl = [''Image uploaded successfully!'']"
      "s' = s\<lparr>files := save_upload L (files s) ?n data, images := images s @ [?row]\<rparr>"
    using upload_accepted[OF assms(1-3) free, of L now data] assms(6) by simp_all
  have none: "find (\<lambda>i. custom_slug i = Some c) (images s) = None"
    using assms(5) by (simp add: find_None_iff_map)
  have found: "image_by_custom_slug (images s') c = Some ?row"
    using out(3) find_append_None[OF none, of "[?row]"]
    by (simp add: image_by_custom_slug_def new_image_def)
  have stored: "files s' ?n = Some data"
    using out(3) by (simp add: save_upload_stored)
  have name_row: "filename ?row = ?n"
    by (simp add: new_image_def)
  have now_ok: "handle (ReqImageBySlug c) s' = (SendFile data, [], s')"
    using found stored name_row assms(4)
    by (simp add: image_by_slug_def send_from_directory_def)
  obtain ys where "images (run later s') = images s' @ ys"
    using run_images_grow by blast
  then have found_later: "image_by_custom_slug (images (run later s')) c = Some ?row"
    using found find_append_Some[of "\<lambda>i. custom_slug i = Some c" "images s'" ?row ys]
    by (simp add: image_by_custom_slug_def)
  have stored_later: "files (run later s') ?n = Some data"
    using run_files_frame[OF assms(7), of s'] stored by simp
  have later_ok: "handle (ReqImageBySlug c) (run later s') = (SendFile data, [], run later s')"
    using found_later stored_later name_row assms(4)
    by (simp add: image_by_slug_def send_from_directory_def)
  have absent: "Some c2 \<notin> set (map custom_slug (images t)) \<longrightarrow>
      handle (ReqImageBySlug c2) t = (Abort404, [], t)"
  proof
    assume "Some c2 \<notin> set (map custom_slug (images t))"
    then have "find (\<lambda>i. custom_slug i = Some c2) (images t) = None"
      by (simp add: find_None_iff_map)
    then show "handle (ReqImageBySlug c2) t = (Abort404, [], t)"
      by (simp add: image_by_slug_def image_by_custom_slug_def)
  qed
  show ?thesis
    using out(1,2) found now_ok found_later later_ok absent by blast
qed

text \<open>
  The theorem of C9 at the upload of \<^verbatim>\<open>cat.png\<close> under the slug \<^verbatim>\<open>kitty\<close>, followed by
  a listing, an upload of \<^verbatim>\<open>dog.gif\<close> and a logout.
\<close>

theorem C9_witness:
  "current_user ex_logged_in =
     Some \<lparr>u_id = 1, username = ''alice'', password_hash = ''sha:pw''\<rparr> \<and>
   allowed_file ''cat.png'' \<and>
   url_segment ''kitty'' \<and>
   Some ''kitty'' \<notin> set (map custom_slug (images ex_logged_in)) \<and>
   upload ex_lib 7 POST (ex_cat (Some ''kitty'')) ex_logged_in =
     (Redirect (EImageDetail 1), [''Image uploaded successfully!''], ex_with_kitty) \<and>
   \<not> stores_under (ReqUpload ex_lib 9 POST (ex_dog None)) ''cat.png'' \<and>
   handle (ReqImageBySlug ''kitty'') ex_with_kitty = (SendFile ex_png, [], ex_with_kitty) \<and>
   handle (ReqImageBySlug ''kitty'') (run ex_later ex_with_kitty) =
     (SendFile ex_png, [], run ex_later ex_with_kitty) \<and>
   Some ''nobody'' \<notin> set (map custom_slug (images ex_with_kitty)) \<and>
   handle (ReqImageBySlug ''nobody'') ex_with_kitty = (Abort404, [], ex_with_kitty)"
proof -
  have h4: "url_segment ''kitty''"
    by (simp add: url_segment_def)
  have h5: "Some ''kitty'' \<notin> set (map custom_slug (images ex_logged_in))"
    by (simp add: ex_logged_in_eq)
  have free: "Some ''kitty'' = None \<or> Some ''kitty'' \<notin> set (map custom_slug (images ex_logged_in))"
    using h5 by simp
  have ids: "next_id (map i_id (images ex_logged_in)) = 1"
    by (simp add: ex_logged_in_eq next_id_def)
  note acc = upload_accepted[OF ex_current_user _ allowed_ex(1) free, of ex_lib 7 ex_png]
  have h6: "upload ex_lib 7 POST
      \<lparr>image_part = Some (''cat.png'', ex_png), form_custom_slug = Some ''kitty''\<rparr> ex_logged_in =
      (Redirect (EImageDetail 1), [''Image uploaded successfully!''], ex_with_kitty)"
    using acc ids by (simp add: ex_with_kitty_def ex_cat_def state_after_def)
  have h7: "\<forall>q \<in> set ex_later. \<not> stores_under q (secure_filename ex_lib ''cat.png'')"
    by (simp add: ex_later_def ex_dog_def ex_lib_def)
  have q: "\<not> stores_under (ReqUpload ex_lib 9 POST (ex_dog None)) ''cat.png''"
    by (simp add: ex_dog_def ex_lib_def)
  have h8: "Some ''nobody'' \<notin> set (map custom_slug (images ex_with_kitty))"
    by (simp add: ex_with_kitty_eq)
  note main = C9_slug_round_trip[where later = ex_later and ?c2.0 = "''nobody''"
        and t = ex_with_kitty, OF ex_current_user _ allowed_ex(1) h4 h5 h6 h7]
  have a: "handle (ReqImageBySlug ''kitty'') ex_with_kitty = (SendFile ex_png, [], ex_with_kitty)"
      "handle (ReqImageBySlug ''kitty'') (run ex_later ex_with_kitty) =
        (SendFile ex_png, [], run ex_later ex_with_kitty)"
      "handle (ReqImageBySlug ''nobody'') ex_with_kitty = (Abort404, [], ex_with_kitty)"
    using main h8 by blast+
  show ?thesis
    using ex_current_user allowed_ex(1) h4 h5 h6 q a h8 by (simp add: ex_cat_def)
qed

text \<open>
  C9 as stated fails in two ways.  After a later upload under the same file name,
  \<^verbatim>\<open>GET /i/kitty\<close> sends the later upload's bytes, not the bytes uploaded under the slug.
  And an upload whose custom slug is \<^verbatim>\<open>a/b\<close> succeeds with that slug unused before, yet
  \<^verbatim>\<open>GET /i/a/b\<close> matches no rule of the router and is answered with 404.
\<close>

theorem C9_later_bytes_and_slash_counterexample:
  "upload ex_lib 7 POST (ex_cat (Some ''kitty'')) ex_logged_in =
     (Redirect (EImageDetail 1), [''Image uploaded successfully!''], ex_with_kitty) \<and>
   ex_overwritten = run [ReqUpload ex_lib 9 POST ex_cat_again] ex_with_kitty \<and>
   handle (ReqImageBySlug ''kitty'') ex_overwritten = (SendFile ex_gif, [], ex_overwritten) \<and>
   ex_gif \<noteq> ex_png \<and>
   Some ''a/b'' \<notin> set (map custom_slug (images ex_logged_in)) \<and>
   upload ex_lib 7 POST (ex_cat (Some ''a/b'')) ex_logged_in =
     (Redirect (EImageDetail 1), [''Image uploaded successfully!''], ex_slashed) \<and>
   map custom_slug (images ex_slashed) = [Some ''a/b''] \<and>
   handle (ReqImageBySlug ''a/b'') ex_slashed = (Abort404, [], ex_slashed)"
proof -
  have ids: "next_id (map i_id (images ex_logged_in)) = 1"
      "next_id (map i_id (images ex_with_kitty)) = 2"
    by (simp_all add: ex_logged_in_eq ex_with_kitty_eq next_id_def)
  have f1: "Some ''kitty'' = None \<or> Some ''kitty'' \<notin> set (map custom_slug (images ex_logged_in))"
    by (simp add: ex_logged_in_eq)
  have f2: "Some ''a/b'' = None \<or> Some ''a/b'' \<notin> set (map custom_slug (images ex_logged_in))"
    by (simp add: ex_logged_in_eq)
  have f3: "None = None \<or> None \<notin> set (map custom_slug (images ex_with_kitty))"
    by simp
  note acc1 = upload_accepted[OF ex_current_user _ allowed_ex(1) f1, of ex_lib 7 ex_png]
  note acc2 = upload_accepted[OF ex_current_user _ allowed_ex(1) f2, of ex_lib 7 ex_png]
  note acc3 = upload_accepted[OF ex_current_user_kitty _ allowed_ex(1) f3, of ex_lib 9 ex_gif]
  have a: "upload ex_lib 7 POST (ex_cat (Some ''kitty'')) ex_logged_in =
      (Redirect (EImageDetail 1), [''Image uploaded successfully!''], ex_with_kitty)"
    using acc1 ids(1) by (simp add: ex_with_kitty_def ex_cat_def state_after_def)
  have b: "upload ex_lib 7 POST (ex_cat (Some ''a/b'')) ex_logged_in =
      (Redirect (EImageDetail 1), [''Image uploaded successfully!''], ex_slashed)"
    using acc2 ids(1) by (simp add: ex_slashed_def ex_cat_def state_after_def)
  have over: "ex_overwritten =
      ex_with_kitty\<lparr>files := save_upload ex_lib (files ex_with_kitty) ''cat.png'' ex_gif,
        images := images ex_with_kitty @
          [new_image ''cat.png'' None 9
             \<lparr>u_id = 1, username = ''alice'', password_hash = ''sha:pw''\<rparr> 2]\<rparr>"
    using acc3 ids(2)
    by (simp add: ex_overwritten_def ex_cat_again_def state_after_def ex_lib_def)
  have kitty: "image_by_custom_slug (images ex_overwritten) ''kitty'' = Some ex_kitty_row"
    unfolding over
    by (simp add: image_by_custom_slug_def ex_with_kitty_eq ex_kitty_row_def)
  have bytes: "files ex_overwritten ''cat.png'' = Some ex_gif"
    unfolding over by (simp add: save_upload_stored)
  have c: "handle (ReqImageBySlug ''kitty'') ex_overwritten = (SendFile ex_gif, [], ex_overwritten)"
    using kitty bytes
    by (simp add: url_segment_def image_by_slug_def send_from_directory_def ex_kitty_row_def)
  have slugs: "map custom_slug (images ex_slashed) = [Some ''a/b'']"
    using acc2
    by (simp add: ex_slashed_def ex_cat_def state_after_def ex_logged_in_eq new_image_def)
  have d: "handle (ReqImageBySlug ''a/b'') ex_slashed = (Abort404, [], ex_slashed)"
    by (simp add: url_segment_def)
  have e: "ex_gif \<noteq> ex_png"
    by (simp add: ex_gif_def ex_png_def)
  show ?thesis
    using a b c d e slugs f2 by (simp add: ex_overwritten_def)
qed

subsection \<open>C10: a file name that is already stored\<close>

text \<open>
  Claim C10, as amended.  An authenticated upload of a valid file whose sanitized name
  is the file name of an earlier row, with a custom slug that does not stand in the way,
  succeeds: no check compares file names, the earlier row stays as it is and the new row
  carries the same file name.  The stored original is replaced in place, so the earlier
  row's file name, through \<^verbatim>\<open>/uploads/<filename>\<close> and through the earlier row's custom
  slug, now yields the new bytes.  The file under the \<^verbatim>\<open>thumb_\<close> name is replaced
  whenever thumbnail generation for the new bytes succeeds.
\<close>

theorem C10_same_name_overwrites:
  assumes "db_ok s" and "current_user s = Some cu" and "name \<noteq> []" and "allowed_file name"
    and "slug = None \<or> slug \<notin> set (map custom_slug (images s))"
    and "old \<in> set (images s)" and "filename old = secure_filename L name"
    and "upload L now POST \<lparr>image_part = Some (name, data), form_custom_slug = slug\<rparr> s =
           (r, fl, s')"
  shows "r = Redirect (EImageDetail (next_id (map i_id (images s)))) \<and>
     fl = [''Image uploaded successfully!''] \<and>
     images s' =
       images s @ [new_image (filename old) slug now cu (next_id (map i_id (images s)))] \<and>
     files s' (filename old) = Some data \<and>
     uploaded_file (filename old) s' = (SendFile data, [], s') \<and>
     (\<forall>c. custom_slug old = Some c \<longrightarrow> image_by_slug c s' = (SendFile data, [], s')) \<and>
     (\<forall>t. pil_thumbnail L (''thumb_'' @ filename old) data = Written t \<longrightarrow>
        files s' (''thumb_'' @ filename old) = Some t)"
proof -
  let ?row = "new_image (filename old) slug now cu (next_id (map i_id (images s)))"
  have out: "r = Redirect (EImageDetail (next_id (map i_id (images s))))"
      "fl = [''Image uploaded successfully!'']"
      "s' = s\<lparr>files := save_upload L (files s) (filename old) data, images := images s @ [?row]\<rparr>"
    using upload_accepted[OF assms(2-5), of L now data] assms(7,8) by simp_all
  have imgs: "images s' = images s @ [?row]"
    using out(3) by simp
  have stored: "files s' (filename old) = Some data"
    using out(3) by (simp add: save_upload_stored)
  have served: "uploaded_file (filename old) s' = (SendFile data, [], s')"
    using stored by (simp add: uploaded_file_def send_from_directory_def)
  have by_slug: "\<forall>c. custom_slug old = Some c \<longrightarrow> image_by_slug c s' = (SendFile data, [], s')"
  proof (intro allI impI)
    fix c
    assume c: "custom_slug old = Some c"
    have "distinct (filter (\<lambda>c. c \<noteq> None) (map custom_slug (images s)))"
      using assms(1) by (simp add: db_ok_def)
    then have "image_by_custom_slug (images s) c = Some old"
      using assms(6) c by (rule image_by_custom_slug_unique)
    then have "image_by_custom_slug (images s') c = Some old"
      using imgs find_append_Some[of "\<lambda>i. custom_slug i = Some c" "images s" old "[?row]"]
      by (simp add: image_by_custom_slug_def)
    then show "image_by_slug c s' = (SendFile data, [], s')"
      using stored by (simp add: image_by_slug_def send_from_directory_def)
  qed
  have thumb: "\<forall>t. pil_thumbnail L (''thumb_'' @ filename old) data = Written t \<longrightarrow>
      files s' (''thumb_'' @ filename old) = Some t"
    using out(3) by (simp add: save_upload_eq)
  show ?thesis
    using out(1,2) imgs stored served by_slug thumb by blast
qed

text \<open>The theorem of C10 at a second upload named \<^verbatim>\<open>cat.png\<close>, with other bytes.\<close>

theorem C10_witness:
  "db_ok ex_with_kitty \<and>
   current_user ex_with_kitty =
     Some \<lparr>u_id = 1, username = ''alice'', password_hash = ''sha:pw''\<rparr> \<and>
   allowed_file ''cat.png'' \<and>
   ex_kitty_row \<in> set (images ex_with_kitty) \<and>
   filename ex_kitty_row = secure_filename ex_lib ''cat.png'' \<and>
   custom_slug ex_kitty_row = Some ''kitty'' \<and>
   pil_thumbnail ex_lib ''thumb_cat.png'' ex_gif = Written [71] \<and>
   upload ex_lib 9 POST ex_cat_again ex_with_kitty =
     (Redirect (EImageDetail 2), [''Image uploaded successfully!''], ex_overwritten) \<and>
   uploaded_file ''cat.png'' ex_overwritten = (SendFile ex_gif, [], ex_overwritten) \<and>
   image_by_slug ''kitty'' ex_overwritten = (SendFile ex_gif, [], ex_overwritten) \<and>
   files ex_overwritten ''thumb_cat.png'' = Some [71]"
proof -
  have h1: "db_ok ex_with_kitty"
    by (simp add: db_ok_def ex_with_kitty_eq)
  have h5: "None = None \<or> None \<notin> set (map custom_slug (images ex_with_kitty))"
    by simp
  have h7: "filename ex_kitty_row = secure_filename ex_lib ''cat.png''"
    by (simp add: ex_kitty_row_def ex_lib_def)
  have ids: "next_id (map i_id (images ex_with_kitty)) = 2"
    by (simp add: ex_with_kitty_eq next_id_def)
  note acc = upload_accepted[OF ex_current_user_kitty _ allowed_ex(1) h5, of ex_lib 9 ex_gif]
  have h8: "upload ex_lib 9 POST
      \<lparr>image_part = Some (''cat.png'', ex_gif), form_custom_slug = None\<rparr> ex_with_kitty =
      (Redirect (EImageDetail 2), [''Image uploaded successfully!''], ex_overwritten)"
    using acc ids by (simp add: ex_overwritten_def ex_cat_again_def state_after_def)
  have k: "filename ex_kitty_row = ''cat.png''" "custom_slug ex_kitty_row = Some ''kitty''"
    by (simp_all add: ex_kitty_row_def)
  have t: "pil_thumbnail ex_lib ''thumb_cat.png'' ex_gif = Written [71]"
    by (simp add: ex_lib_def ex_gif_def)
  show ?thesis
    using C10_same_name_overwrites[OF h1 ex_current_user_kitty _ allowed_ex(1) h5
        ex_kitty_row_in h7 h8]
      h1 ex_current_user_kitty allowed_ex(1) ex_kitty_row_in h7 h8 k t
    by (simp add: ex_cat_again_def)
qed

text \<open>
  C10 as stated fails for the thumbnail when the new bytes cannot be decoded: the upload
  succeeds and replaces the original, and the file under the \<^verbatim>\<open>thumb_\<close> name is still
  the thumbnail of the earlier upload.
\<close>

theorem C10_stale_thumbnail_counterexample:
  "ex_kitty_row \<in> set (images ex_with_kitty) \<and>
   filename ex_kitty_row = ''cat.png'' \<and>
   thumbnail ex_kitty_row = Some ''thumb_cat.png'' \<and>
   upload ex_lib 9 POST (ex_broken None) ex_with_kitty =
     (Redirect (EImageDetail 2), [''Image uploaded successfully!''], ex_stale) \<and>
   files ex_stale ''cat.png'' = Some ex_corrupt \<and>
   files ex_stale ''thumb_cat.png'' = files ex_with_kitty ''thumb_cat.png'' \<and>
   files ex_with_kitty ''thumb_cat.png'' = Some [137]"
proof -
  have h5: "None = None \<or> None \<notin> set (map custom_slug (images ex_with_kitty))"
    by simp
  have ids: "next_id (map i_id (images ex_with_kitty)) = 2"
    by (simp add: ex_with_kitty_eq next_id_def)
  note acc = upload_accepted[OF ex_current_user_kitty _ allowed_ex(1) h5, of ex_lib 9 ex_corrupt]
  have up: "upload ex_lib 9 POST (ex_broken None) ex_with_kitty =
      (Redirect (EImageDetail 2), [''Image uploaded successfully!''], ex_stale)"
    using acc ids by (simp add: ex_stale_def ex_broken_def state_after_def)
  have fs: "files ex_stale = save_upload ex_lib (files ex_with_kitty) ''cat.png'' ex_corrupt"
    using acc by (simp add: ex_stale_def ex_broken_def state_after_def ex_lib_def)
  have "files ex_stale = (files ex_with_kitty)(''cat.png'' \<mapsto> ex_corrupt)"
    unfolding fs by (simp add: save_upload_eq ex_lib_def ex_corrupt_def)
  then have f: "files ex_stale ''cat.png'' = Some ex_corrupt"
      "files ex_stale ''thumb_cat.png'' = files ex_with_kitty ''thumb_cat.png''"
    by simp_all
  have "files ex_with_kitty ''thumb_cat.png'' = Some [137]"
    by (simp add: ex_with_kitty_eq)
  then show ?thesis
    using up f ex_kitty_row_in by (simp add: ex_kitty_row_def)
qed

end
